theory Spec2Isabelle
  imports Main "HOL-Library.Multiset"
begin

section \<open>Data model (db.go)\<close>

text \<open>
  The structs of db.go as records. Go's \<open>int\<close> identifiers are only ever compared for
  equality, never computed with, so they are modelled as \<open>int\<close>. The fields \<open>ID\<close>,
  \<open>Name\<close> and \<open>Number\<close> occur in several structs and carry the struct's name as a prefix.
  The type \<open>'g\<close> is what stands for the \<open>[][]int\<close> of \<open>NumGrp\<close>: the list of its
  groups where the slice is read by its contents, a slice header where the backing
  arrays matter.
\<close>

record Person =
  Person_ID :: int
  Person_Name :: string
  Person_Number :: string

record ProxyNumberType =
  Proxy_ID :: int
  Proxy_Number :: string

record 'g RideType =
  Ride_ID :: int
  Start :: string
  Destination :: string
  DateTime :: string
  ThisCustomer :: Person
  ThisDriver :: Person
  ThisProxyNumber :: ProxyNumberType
  NumGrp :: 'g

text \<open>
  A Go \<open>map[int]T\<close> is an association list with distinct keys; the order of the list is
  the order in which a \<open>range\<close> loop visits the entries. Go leaves that order
  unspecified, so a statement about every list covers every order the runtime may pick.
\<close>

type_synonym 'v gomap = "(int \<times> 'v) list"

record 'g RideSharingDB =
  Customers :: "Person gomap"
  Drivers :: "Person gomap"
  ProxyNumbers :: "ProxyNumberType gomap"
  Rides :: "'g RideType gomap"
  Message :: string

text \<open>\<open>m[k] = v\<close>: the entry of an existing key is replaced, a new key is added.\<close>

fun mapPut :: "int \<Rightarrow> 'v \<Rightarrow> 'v gomap \<Rightarrow> 'v gomap" where
  "mapPut k v [] = [(k, v)]"
| "mapPut k v ((k', v') # m) = (if k' = k then (k, v) # m else (k', v') # mapPut k v m)"

subsection \<open>loadDB\<close>

text \<open>
  \<open>strconv.Atoi\<close> of the Go library, which the handler uses on form values and the
  \<open>database/sql\<close> package on a text it has to scan into an \<open>int\<close>: an optional sign,
  then decimal digits and nothing else. Like the Go function it returns a value next to
  the error: 0 with a syntax error, the nearest 64-bit integer with a range error.
\<close>

datatype numError = ErrSyntax | ErrRange

definition isDigit :: "char \<Rightarrow> bool" where
  "isDigit c \<longleftrightarrow> c \<in> set ''0123456789''"

fun digitsValue :: "string \<Rightarrow> int \<Rightarrow> int" where
  "digitsValue [] n = n"
| "digitsValue (c # cs) n = digitsValue cs (n * 10 + (of_char c - 48))"

definition parseDigits :: "bool \<Rightarrow> string \<Rightarrow> int \<times> numError option" where
  "parseDigits neg ds =
     (if ds = [] \<or> \<not> list_all isDigit ds then (0, Some ErrSyntax)
      else let un = digitsValue ds 0 in
        if neg then (if un > 2 ^ 63 then (- (2 ^ 63), Some ErrRange) else (- un, None))
        else (if un \<ge> 2 ^ 63 then (2 ^ 63 - 1, Some ErrRange) else (un, None)))"

definition Atoi :: "string \<Rightarrow> int \<times> numError option" where
  "Atoi s =
     (case s of
        [] \<Rightarrow> (0, Some ErrSyntax)
      | c # ds \<Rightarrow>
          if c = CHR ''-'' then parseDigits True ds
          else if c = CHR ''+'' then parseDigits False ds
          else parseDigits False s)"

text \<open>
  The rows that the four \<open>SELECT *\<close> queries of \<open>loadDB\<close> deliver, in the order of the
  result sets. The SQL engine itself is outside the model, and no column is \<open>NULL\<close>.
\<close>

type_synonym person_row = "int \<times> string \<times> string"
type_synonym proxy_row = "int \<times> string"

text \<open>
  What the engine holds in a column declared \<open>INTEGER\<close> that is no primary key: an
  integer, or a text it was given and did not turn into one.
\<close>

datatype cell = IntCell int | TextCell string

text \<open>A row of \<open>rides\<close>, with the columns of the \<open>CREATE TABLE\<close> statement.\<close>

record ride_row =
  row_id :: int
  row_start :: string
  row_destination :: string
  row_datetime :: string
  customer_id :: cell
  driver_id :: cell
  number_id :: cell

record Tables =
  customers :: "person_row list"
  drivers :: "person_row list"
  proxy_numbers :: "proxy_row list"
  rides :: "ride_row list"

definition scanPerson :: "person_row \<Rightarrow> Person" where
  "scanPerson row = (case row of (i, name, number) \<Rightarrow>
     \<lparr>Person_ID = i, Person_Name = name, Person_Number = number\<rparr>)"

definition scanProxy :: "proxy_row \<Rightarrow> ProxyNumberType" where
  "scanProxy row = (case row of (i, number) \<Rightarrow> \<lparr>Proxy_ID = i, Proxy_Number = number\<rparr>)"

text \<open>\<open>for rows.Next() { ...; here[this.ID] = this }\<close>\<close>

fun loadPersons :: "person_row list \<Rightarrow> Person gomap \<Rightarrow> Person gomap" where
  "loadPersons [] here = here"
| "loadPersons (row # rest) here =
     loadPersons rest (mapPut (Person_ID (scanPerson row)) (scanPerson row) here)"

fun loadProxies :: "proxy_row list \<Rightarrow> ProxyNumberType gomap \<Rightarrow> ProxyNumberType gomap" where
  "loadProxies [] here = here"
| "loadProxies (row # rest) here =
     loadProxies rest (mapPut (Proxy_ID (scanProxy row)) (scanProxy row) here)"

text \<open>
  The three loops that copy name and number into the nested structs of a ride, in
  place of an SQL join.
\<close>

fun joinPerson :: "Person gomap \<Rightarrow> Person \<Rightarrow> Person" where
  "joinPerson [] p = p"
| "joinPerson ((k1, v1) # here) p =
     joinPerson here
       (if k1 = Person_ID p
        then p\<lparr>Person_Name := Person_Name v1, Person_Number := Person_Number v1\<rparr>
        else p)"

fun joinProxy :: "ProxyNumberType gomap \<Rightarrow> ProxyNumberType \<Rightarrow> ProxyNumberType" where
  "joinProxy [] p = p"
| "joinProxy ((k3, v3) # here) p =
     joinProxy here (if k3 = Proxy_ID p then p\<lparr>Proxy_Number := Proxy_Number v3\<rparr> else p)"

text \<open>
  \<open>rows.Scan\<close> into an \<open>int\<close>: an integer is taken as it is, a text is parsed the way
  \<open>Atoi\<close> parses, and a text that does not parse is an error.
\<close>

definition scanInt :: "cell \<Rightarrow> int option" where
  "scanInt c =
     (case c of
        IntCell n \<Rightarrow> Some n
      | TextCell s \<Rightarrow> (case Atoi s of (n, None) \<Rightarrow> Some n | (n, Some err) \<Rightarrow> None))"

text \<open>
  The three keys \<open>rows4.Scan\<close> leaves in the zero-valued \<open>thisRide\<close>. The scan fills
  its destinations from left to right and stops at the first column it cannot convert;
  \<open>loadDB\<close> logs the error and goes on with the ride as it is, the later keys still 0.
\<close>

definition scanIDs :: "ride_row \<Rightarrow> int \<times> int \<times> int" where
  "scanIDs row =
     (case scanInt (customer_id row) of
        None \<Rightarrow> (0, 0, 0)
      | Some c \<Rightarrow>
          (case scanInt (driver_id row) of
             None \<Rightarrow> (c, 0, 0)
           | Some d \<Rightarrow>
               (case scanInt (number_id row) of
                  None \<Rightarrow> (c, d, 0)
                | Some n \<Rightarrow> (c, d, n))))"

definition scannedCustomer :: "ride_row \<Rightarrow> int" where
  "scannedCustomer row = fst (scanIDs row)"

definition scannedDriver :: "ride_row \<Rightarrow> int" where
  "scannedDriver row = fst (snd (scanIDs row))"

definition scannedProxy :: "ride_row \<Rightarrow> int" where
  "scannedProxy row = snd (snd (scanIDs row))"

text \<open>
  The body of the loop over the rows of \<open>rides\<close>: the scan into a zero-valued
  \<open>RideType\<close>, the three joins and the two appends to \<open>NumGrp\<close>.
\<close>

definition loadRide ::
  "Person gomap \<Rightarrow> Person gomap \<Rightarrow> ProxyNumberType gomap \<Rightarrow> ride_row \<Rightarrow> int list list RideType" where
  "loadRide hereCustomers hereDrivers hereProxyNumbers row =
     (let thisCustomer = joinPerson hereCustomers
            \<lparr>Person_ID = scannedCustomer row, Person_Name = [], Person_Number = []\<rparr>;
          thisDriver = joinPerson hereDrivers
            \<lparr>Person_ID = scannedDriver row, Person_Name = [], Person_Number = []\<rparr>;
          thisProxy = joinProxy hereProxyNumbers
            \<lparr>Proxy_ID = scannedProxy row, Proxy_Number = []\<rparr>
      in \<lparr>Ride_ID = row_id row, Start = row_start row, Destination = row_destination row,
           DateTime = row_datetime row,
           ThisCustomer = thisCustomer, ThisDriver = thisDriver, ThisProxyNumber = thisProxy,
           NumGrp = ([] @ [[Person_ID thisCustomer, Proxy_ID thisProxy]])
                      @ [[Person_ID thisDriver, Proxy_ID thisProxy]]\<rparr>)"

fun loadRides ::
  "Person gomap \<Rightarrow> Person gomap \<Rightarrow> ProxyNumberType gomap \<Rightarrow> ride_row list \<Rightarrow>
   int list list RideType gomap \<Rightarrow> int list list RideType gomap" where
  "loadRides hereC hereD hereP [] here = here"
| "loadRides hereC hereD hereP (row # rest) here =
     loadRides hereC hereD hereP rest
       (mapPut (Ride_ID (loadRide hereC hereD hereP row)) (loadRide hereC hereD hereP row) here)"

text \<open>
  The in-memory part of \<open>loadDB\<close>, for queries that succeed. The lists it returns are in
  insertion order, one of the orders in which Go may later iterate the maps.
\<close>

definition loadDB :: "Tables \<Rightarrow> int list list RideSharingDB" where
  "loadDB t =
     (let hereCustomers = loadPersons (customers t) [];
          hereDrivers = loadPersons (drivers t) [];
          hereProxyNumbers = loadProxies (proxy_numbers t) [];
          hereRides = loadRides hereCustomers hereDrivers hereProxyNumbers (rides t) []
      in \<lparr>Customers = hereCustomers, Drivers = hereDrivers,
           ProxyNumbers = hereProxyNumbers, Rides = hereRides, Message = []\<rparr>)"

text \<open>
  \<open>db\<close> holds the same maps as \<open>db0\<close>, iterated in some order: every field is a
  permutation of the corresponding field of \<open>db0\<close>.
\<close>

definition orderingOf :: "'g RideSharingDB \<Rightarrow> 'g RideSharingDB \<Rightarrow> bool" where
  "orderingOf db db0 \<longleftrightarrow>
     mset (Customers db) = mset (Customers db0) \<and>
     mset (Drivers db) = mset (Drivers db0) \<and>
     mset (ProxyNumbers db) = mset (ProxyNumbers db0) \<and>
     mset (Rides db) = mset (Rides db0) \<and>
     Message db = Message db0"

section \<open>Route helpers\<close>

subsection \<open>getAvailableProxyNumber\<close>

definition noAvailable :: string where
  "noAvailable = ''no available proxy numbers''"

text \<open>The closure \<open>containsNumGrp\<close>; \<open>reflect.DeepEqual\<close> on two \<open>[]int\<close> is list equality.\<close>

fun containsNumGrp :: "int list list \<Rightarrow> int list \<Rightarrow> bool" where
  "containsNumGrp [] findme = False"
| "containsNumGrp (v # arr) findme = (if v = findme then True else containsNumGrp arr findme)"

text \<open>\<open>for _, v1 := range dbdata.Rides { rideProxySets = append(rideProxySets, v1.NumGrp...) }\<close>\<close>

fun collectProxySets :: "int list list RideType gomap \<Rightarrow> int list list \<Rightarrow> int list list" where
  "collectProxySets [] rideProxySets = rideProxySets"
| "collectProxySets ((k1, v1) # rest) rideProxySets =
     collectProxySets rest (rideProxySets @ NumGrp v1)"

text \<open>The loop over the pool: the first proxy number with neither set taken is returned.\<close>

fun pickProxy ::
  "ProxyNumberType gomap \<Rightarrow> int list list \<Rightarrow> int \<Rightarrow> int \<Rightarrow> string + ProxyNumberType" where
  "pickProxy [] rideProxySets customerID driverID = Inl noAvailable"
| "pickProxy ((k2, v2) # rest) rideProxySets customerID driverID =
     (if \<not> containsNumGrp rideProxySets [customerID, Proxy_ID v2] \<and>
         \<not> containsNumGrp rideProxySets [driverID, Proxy_ID v2]
      then Inr v2
      else pickProxy rest rideProxySets customerID driverID)"

text \<open>
  \<open>getAvailableProxyNumber\<close> receives a pointer to the database. The model passes the
  database in and returns it next to the result, so that what the call leaves behind is
  part of its value: \<open>Inl\<close> is the error, \<open>Inr\<close> the proxy number.
\<close>

definition getAvailableProxyNumber ::
  "int list list RideSharingDB \<Rightarrow> int \<Rightarrow> int \<Rightarrow> (string + ProxyNumberType) \<times> int list list RideSharingDB" where
  "getAvailableProxyNumber dbdata customerID driverID =
     (if length (Rides dbdata) = 0 then
        (case ProxyNumbers dbdata of
           (k, v) # rest \<Rightarrow> (Inr v, dbdata)
         | [] \<Rightarrow> (Inl noAvailable, dbdata))
      else
        let rideProxySets = collectProxySets (Rides dbdata) []
        in (pickProxy (ProxyNumbers dbdata) rideProxySets customerID driverID, dbdata))"

subsection \<open>checkIfCustomer, checkIfDriver\<close>

fun hasNumber :: "Person gomap \<Rightarrow> string \<Rightarrow> bool" where
  "hasNumber [] checkme = False"
| "hasNumber ((k, v) # rest) checkme =
     (if Person_Number v = checkme then True else hasNumber rest checkme)"

definition checkIfCustomer :: "'g RideSharingDB \<Rightarrow> string \<Rightarrow> bool" where
  "checkIfCustomer dbdata checkme = hasNumber (Customers dbdata) checkme"

definition checkIfDriver :: "'g RideSharingDB \<Rightarrow> string \<Rightarrow> bool" where
  "checkIfDriver dbdata checkme = hasNumber (Drivers dbdata) checkme"

section \<open>getAvailableProxyNumber on backing arrays\<close>

text \<open>
  A slice value is a header: the address of a backing array, a length and a capacity.
  Two slices may share an array, and \<open>append\<close> writes into the array of its first
  argument when the capacity allows. The allocator reads \<open>NumGrp\<close> through such headers
  and appends to a slice of its own, so here the function is given once more with the
  arrays made explicit: a write to an array that the database reaches would show.
\<close>

record slice =
  sl_ptr :: nat
  sl_len :: nat
  sl_cap :: nat

text \<open>The nil slice. The address of a slice without capacity is never read.\<close>

definition nilSlice :: slice where
  "nilSlice = \<lparr>sl_ptr = 0, sl_len = 0, sl_cap = 0\<rparr>"

text \<open>
  The memory the call works on: the struct \<open>dbdata\<close> points to, with \<open>NumGrp\<close> as
  slice headers, the backing arrays of the \<open>[][]int\<close> slices and those of the \<open>[]int\<close>
  slices. An address is an index into the list of arrays, and allocating adds an array
  at the end.
\<close>

record Memory =
  database :: "slice RideSharingDB"
  groupArrays :: "slice list list"
  intArrays :: "int list list"

text \<open>The elements of a slice: the first \<open>len\<close> cells of its array.\<close>

definition groupsOf :: "slice list list \<Rightarrow> slice \<Rightarrow> slice list" where
  "groupsOf arrays s = take (sl_len s) (arrays ! sl_ptr s)"

definition intsOf :: "int list list \<Rightarrow> slice \<Rightarrow> int list" where
  "intsOf arrays s = take (sl_len s) (arrays ! sl_ptr s)"

text \<open>
  \<open>append(s, elems...)\<close> on a \<open>[][]int\<close>. With room in the array of \<open>s\<close> the elements
  are written into it after the first \<open>len\<close> cells. Without room a new array is
  allocated, large enough and otherwise as large as the growth policy \<open>grow\<close> of the
  runtime says, and the old elements are copied over; the spare cells hold nil slices.
\<close>

definition appendGroups ::
  "(nat \<Rightarrow> nat \<Rightarrow> nat) \<Rightarrow> slice \<Rightarrow> slice list \<Rightarrow> Memory \<Rightarrow> slice \<times> Memory" where
  "appendGroups grow s elems m =
     (let n = sl_len s + length elems in
      if n \<le> sl_cap s then
        (s\<lparr>sl_len := n\<rparr>,
         m\<lparr>groupArrays := (groupArrays m)
              [sl_ptr s := take (sl_len s) (groupArrays m ! sl_ptr s) @ elems @
                           drop n (groupArrays m ! sl_ptr s)]\<rparr>)
      else
        let c = max n (grow (sl_cap s) n) in
        (\<lparr>sl_ptr = length (groupArrays m), sl_len = n, sl_cap = c\<rparr>,
         m\<lparr>groupArrays := groupArrays m @
              [groupsOf (groupArrays m) s @ elems @ replicate (c - n) nilSlice]\<rparr>))"

text \<open>The composite literal \<open>[]int{...}\<close>: a new array that holds exactly the elements.\<close>

definition newInts :: "int list \<Rightarrow> Memory \<Rightarrow> slice \<times> Memory" where
  "newInts xs m =
     (\<lparr>sl_ptr = length (intArrays m), sl_len = length xs, sl_cap = length xs\<rparr>,
      m\<lparr>intArrays := intArrays m @ [xs]\<rparr>)"

text \<open>
  The closure \<open>containsNumGrp\<close>. \<open>reflect.DeepEqual\<close> of two \<open>[]int\<close> compares their
  elements; \<open>findme\<close> is never nil, so no nil slice is equal to it.
\<close>

fun containsGroup :: "int list list \<Rightarrow> slice list \<Rightarrow> slice \<Rightarrow> bool" where
  "containsGroup ints [] findme = False"
| "containsGroup ints (v # arr) findme =
     (if intsOf ints v = intsOf ints findme then True else containsGroup ints arr findme)"

definition containsNumGrpM :: "Memory \<Rightarrow> slice \<Rightarrow> slice \<Rightarrow> bool" where
  "containsNumGrpM m arr findme =
     containsGroup (intArrays m) (groupsOf (groupArrays m) arr) findme"

text \<open>The loop that appends the groups of every ride to \<open>rideProxySets\<close>.\<close>

fun collectProxySetsM ::
  "(nat \<Rightarrow> nat \<Rightarrow> nat) \<Rightarrow> slice RideType gomap \<Rightarrow> slice \<Rightarrow> Memory \<Rightarrow> slice \<times> Memory" where
  "collectProxySetsM grow [] rideProxySets m = (rideProxySets, m)"
| "collectProxySetsM grow ((k1, v1) # rest) rideProxySets m =
     (case appendGroups grow rideProxySets (groupsOf (groupArrays m) (NumGrp v1)) m of
        (s, m') \<Rightarrow> collectProxySetsM grow rest s m')"

text \<open>
  The loop over the pool. Each test allocates its literal, and the right operand of
  \<open>&&\<close> is evaluated only when the left one holds.
\<close>

fun pickProxyM ::
  "ProxyNumberType gomap \<Rightarrow> slice \<Rightarrow> int \<Rightarrow> int \<Rightarrow> Memory \<Rightarrow>
   (string + ProxyNumberType) \<times> Memory" where
  "pickProxyM [] rideProxySets customerID driverID m = (Inl noAvailable, m)"
| "pickProxyM ((k2, v2) # rest) rideProxySets customerID driverID m =
     (case newInts [customerID, Proxy_ID v2] m of
        (forCustomer, m1) \<Rightarrow>
          if \<not> containsNumGrpM m1 rideProxySets forCustomer then
            (case newInts [driverID, Proxy_ID v2] m1 of
               (forDriver, m2) \<Rightarrow>
                 if \<not> containsNumGrpM m2 rideProxySets forDriver then (Inr v2, m2)
                 else pickProxyM rest rideProxySets customerID driverID m2)
          else pickProxyM rest rideProxySets customerID driverID m1)"

text \<open>
  \<open>getAvailableProxyNumber\<close> as a function from memory to a result and memory. The pool
  is read from the memory the first loop leaves.
\<close>

definition getAvailableProxyNumberM ::
  "(nat \<Rightarrow> nat \<Rightarrow> nat) \<Rightarrow> Memory \<Rightarrow> int \<Rightarrow> int \<Rightarrow> (string + ProxyNumberType) \<times> Memory" where
  "getAvailableProxyNumberM grow m customerID driverID =
     (if length (Rides (database m)) = 0 then
        (case ProxyNumbers (database m) of
           (k, v) # rest \<Rightarrow> (Inr v, m)
         | [] \<Rightarrow> (Inl noAvailable, m))
      else
        (case collectProxySetsM grow (Rides (database m)) nilSlice m of
           (rideProxySets, m1) \<Rightarrow>
             pickProxyM (ProxyNumbers (database m1)) rideProxySets customerID driverID m1))"


text \<open>
  What a memory holds when the slices are read by their contents: the database of the
  model above.
\<close>

definition contents :: "Memory \<Rightarrow> slice \<Rightarrow> int list list" where
  "contents m s = map (intsOf (intArrays m)) (groupsOf (groupArrays m) s)"

definition rideContents :: "Memory \<Rightarrow> slice RideType \<Rightarrow> int list list RideType" where
  "rideContents m r =
     \<lparr>Ride_ID = Ride_ID r, Start = Start r, Destination = Destination r,
      DateTime = DateTime r, ThisCustomer = ThisCustomer r, ThisDriver = ThisDriver r,
      ThisProxyNumber = ThisProxyNumber r, NumGrp = contents m (NumGrp r)\<rparr>"

definition snapshot :: "Memory \<Rightarrow> int list list RideSharingDB" where
  "snapshot m =
     \<lparr>Customers = Customers (database m), Drivers = Drivers (database m),
      ProxyNumbers = ProxyNumbers (database m),
      Rides = map (\<lambda>(k, r). (k, rideContents m r)) (Rides (database m)),
      Message = Message (database m)\<rparr>"

text \<open>
  A slice with elements points into the arrays. A memory is well formed when this holds
  of \<open>NumGrp\<close> of every ride and of every group in it.
\<close>

definition inRange :: "'a list list \<Rightarrow> slice \<Rightarrow> bool" where
  "inRange arrays s \<longleftrightarrow> sl_len s = 0 \<or> sl_ptr s < length arrays"

definition wellFormed :: "Memory \<Rightarrow> bool" where
  "wellFormed m \<longleftrightarrow>
     (\<forall>r \<in> set (Rides (database m)).
        inRange (groupArrays m) (NumGrp (snd r)) \<and>
        (\<forall>v \<in> set (groupsOf (groupArrays m) (NumGrp (snd r))). inRange (intArrays m) v))"

text \<open>
  The slice a call builds for itself: its length is within its capacity, and with a
  capacity it has an array of that size.
\<close>

definition valid :: "slice list list \<Rightarrow> slice \<Rightarrow> bool" where
  "valid h s \<longleftrightarrow>
     sl_len s \<le> sl_cap s \<and>
     (sl_cap s = 0 \<or> (sl_ptr s < length h \<and> length (h ! sl_ptr s) = sl_cap s))"

text \<open>
  A memory with two rides on one proxy number, each with an array of two groups, and a
  growth policy that doubles.
\<close>

definition doubling :: "nat \<Rightarrow> nat \<Rightarrow> nat" where
  "doubling c n = 2 * n"

definition rideM :: "int \<Rightarrow> nat \<Rightarrow> slice RideType" where
  "rideM rid address =
     \<lparr>Ride_ID = rid, Start = [], Destination = [], DateTime = [],
      ThisCustomer = \<lparr>Person_ID = rid, Person_Name = [], Person_Number = []\<rparr>,
      ThisDriver = \<lparr>Person_ID = rid, Person_Name = [], Person_Number = []\<rparr>,
      ThisProxyNumber = \<lparr>Proxy_ID = 1, Proxy_Number = ''319700004''\<rparr>,
      NumGrp = \<lparr>sl_ptr = address, sl_len = 2, sl_cap = 2\<rparr>\<rparr>"

definition exampleMemory :: Memory where
  "exampleMemory =
     \<lparr>database =
        \<lparr>Customers = [], Drivers = [],
         ProxyNumbers = [(1, \<lparr>Proxy_ID = 1, Proxy_Number = ''319700004''\<rparr>),
                         (2, \<lparr>Proxy_ID = 2, Proxy_Number = ''319700005''\<rparr>)],
         Rides = [(1, rideM 1 0), (2, rideM 2 1)], Message = []\<rparr>,
      groupArrays =
        [[\<lparr>sl_ptr = 0, sl_len = 2, sl_cap = 2\<rparr>, \<lparr>sl_ptr = 1, sl_len = 2, sl_cap = 2\<rparr>],
         [\<lparr>sl_ptr = 2, sl_len = 2, sl_cap = 2\<rparr>, \<lparr>sl_ptr = 3, sl_len = 2, sl_cap = 2\<rparr>]],
      intArrays = [[1, 1], [1, 1], [2, 1], [2, 1]]\<rparr>"

section \<open>Handlers (routes.go)\<close>

text \<open>
  What a handler does to the outside: the text messages handed to \<open>mbSender\<close>
  (originator, recipients, body), the lines it logs (without the logger's time stamp),
  the HTTP status and the bytes written to the response. The reply of the messaging
  service, and what \<open>mbSender\<close> logs about it, are outside the model.
\<close>

record Effects =
  sent :: "(string \<times> string list \<times> string) list"
  logs :: "string list"
  status :: nat
  written :: string

definition noEffects :: Effects where
  "noEffects = \<lparr>sent = [], logs = [], status = 200, written = []\<rparr>"

definition mbSender :: "string \<Rightarrow> string list \<Rightarrow> string \<Rightarrow> Effects \<Rightarrow> Effects" where
  "mbSender originator recipient msgbody w = w\<lparr>sent := sent w @ [(originator, recipient, msgbody)]\<rparr>"

definition logLine :: "string \<Rightarrow> Effects \<Rightarrow> Effects" where
  "logLine l w = w\<lparr>logs := logs w @ [l]\<rparr>"

definition fprint :: "string \<Rightarrow> Effects \<Rightarrow> Effects" where
  "fprint s w = w\<lparr>written := written w @ s\<rparr>"

definition serverError :: "string \<Rightarrow> Effects \<Rightarrow> Effects" where
  "serverError err w = fprint (''Server encountered an error: '' @ err) (w\<lparr>status := 500\<rparr>)"

subsection \<open>messageHookHandler\<close>

definition unknownProxyLine :: "string \<Rightarrow> string" where
  "unknownProxyLine receiver = ''Unknown proxy number: '' @ receiver"

definition noRideLine :: "string \<Rightarrow> string \<Rightarrow> string" where
  "noRideLine originator receiver =
     ''Could not find ride for customer/driver '' @ originator @ '' that uses proxy '' @ receiver"

text \<open>
  The loop over \<open>dbdata.Rides\<close> with the code after it: a forward returns from the
  handler at once, the two logging branches go on to the next ride, and the end of the
  loop writes \<open>OK\<close>.
\<close>

fun messageRides ::
  "'g RideSharingDB \<Rightarrow> 'g RideType gomap \<Rightarrow> string \<Rightarrow> string \<Rightarrow> string \<Rightarrow> Effects \<Rightarrow> Effects" where
  "messageRides dbdata [] originator receiver payload w = fprint ''OK'' w"
| "messageRides dbdata ((k, v) # rest) originator receiver payload w =
     (if Proxy_Number (ThisProxyNumber v) = receiver then
        (if checkIfCustomer dbdata originator then
           mbSender receiver [Person_Number (ThisDriver v)] payload w
         else if checkIfDriver dbdata originator then
           mbSender receiver [Person_Number (ThisCustomer v)] payload w
         else
           messageRides dbdata rest originator receiver payload
             (logLine (noRideLine originator receiver) w))
      else
        messageRides dbdata rest originator receiver payload
          (logLine (unknownProxyLine receiver) w))"

text \<open>
  The handler proper. \<open>loaded\<close> is the outcome of \<open>dbdata.loadDB()\<close>: \<open>Inl\<close> the
  error of a failed query, \<open>Inr\<close> the snapshot now held in \<open>dbdata\<close>.
\<close>

definition messageHookHandler ::
  "string + 'g RideSharingDB \<Rightarrow> string \<Rightarrow> string \<Rightarrow> string \<Rightarrow> string \<Rightarrow> Effects" where
  "messageHookHandler loaded method originator receiver payload =
     (case loaded of
        Inl err \<Rightarrow> serverError err noEffects
      | Inr dbdata \<Rightarrow>
          if method = ''POST''
          then messageRides dbdata (Rides dbdata) originator receiver payload noEffects
          else noEffects)"

subsection \<open>voiceHookHandler\<close>

definition apos :: string where
  "apos = [CHR 0x27]"

definition xmlHeader :: string where
  "xmlHeader = ''<?xml version='1.0' encoding='UTF-8'?>''"

definition transactionFailXML :: string where
  "transactionFailXML =
     xmlHeader @
     ''<Say language='en-GB' voice='female'>Sorry, we cannot identify your transaction. '' @
     ''Please make sure you have call in from the number you registered.</Say><Hangup />''"

definition transferXML :: "string \<Rightarrow> string" where
  "transferXML forwardToThisNumber =
     xmlHeader @ ''<Transfer destination='' @ apos @ forwardToThisNumber @ apos @
     '' make='true' />''"

definition transferFailed :: "string \<Rightarrow> Effects \<Rightarrow> Effects" where
  "transferFailed forwardToThisNumber w =
     logLine (''Transfer to '' @ forwardToThisNumber @ '' failed.'') (fprint transactionFailXML w)"

text \<open>
  The loop over \<open>dbdata.Rides\<close> with the code after it; \<open>forwardToThisNumber\<close> is the
  local variable the loop assigns. \<open>log.Println\<close> puts a blank between its operands.
  The \<open>Content-Type\<close> header the handler sets first is not part of \<open>Effects\<close>.
\<close>

fun voiceRides ::
  "'g RideSharingDB \<Rightarrow> 'g RideType gomap \<Rightarrow> string \<Rightarrow> string \<Rightarrow> string \<Rightarrow> Effects \<Rightarrow> Effects" where
  "voiceRides dbdata [] proxyNumber caller forwardToThisNumber w =
     fprint (transferXML forwardToThisNumber)
       (logLine (''Transferring call to '' @ '' '' @ forwardToThisNumber) w)"
| "voiceRides dbdata ((k, v) # rest) proxyNumber caller forwardToThisNumber w =
     (if Proxy_Number (ThisProxyNumber v) = proxyNumber then
        (if checkIfCustomer dbdata caller then
           voiceRides dbdata rest proxyNumber caller (Person_Number (ThisDriver v)) w
         else if checkIfDriver dbdata caller then
           voiceRides dbdata rest proxyNumber caller (Person_Number (ThisCustomer v)) w
         else transferFailed forwardToThisNumber w)
      else transferFailed forwardToThisNumber w)"

definition voiceHookHandler :: "string + 'g RideSharingDB \<Rightarrow> string \<Rightarrow> string \<Rightarrow> Effects" where
  "voiceHookHandler loaded proxyNumber caller =
     (case loaded of
        Inl err \<Rightarrow> serverError err noEffects
      | Inr dbdata \<Rightarrow> voiceRides dbdata (Rides dbdata) proxyNumber caller [] noEffects)"

section \<open>Creating a ride (createRideHandler)\<close>

text \<open>
  The \<open>INSERT INTO rides\<close> statement of \<open>createRideHandler\<close>: one more row, under the
  key \<open>rid\<close> that the database gives it. The statement carries the two form values as
  quoted texts, and \<open>customerCell\<close> and \<open>driverCell\<close> are what the engine makes of them
  in its \<open>INTEGER\<close> columns; the key of the proxy number is written with \<open>%d\<close> and is
  stored as that integer. Form values with an apostrophe in them, which break the
  statement, are outside the model.
\<close>

definition insertRide ::
  "Tables \<Rightarrow> int \<Rightarrow> string \<Rightarrow> string \<Rightarrow> string \<Rightarrow> cell \<Rightarrow> cell \<Rightarrow> int \<Rightarrow> Tables" where
  "insertRide t rid startLocation destinationLocation dateTime customerCell driverCell numberID =
     t\<lparr>rides := rides t @
        [\<lparr>row_id = rid, row_start = startLocation, row_destination = destinationLocation,
          row_datetime = dateTime, customer_id = customerCell, driver_id = driverCell,
          number_id = IntCell numberID\<rparr>]\<rparr>"

text \<open>
  What the \<open>POST\<close> branch of \<open>createRideHandler\<close> does to the stored tables. \<open>dbdata\<close> is
  the snapshot \<open>loadDB\<close> has just read, \<open>customerID\<close> and \<open>driverID\<close> are the form
  values, and \<open>store\<close> is the conversion the engine applies to a text that goes into an
  \<open>INTEGER\<close> column. Both values go through \<open>Atoi\<close> and the second call assigns
  \<open>err\<close> again, so only the error of \<open>driverID\<close> is looked at: with a customer value that
  does not parse the handler goes on with \<open>customerIDint\<close> as \<open>Atoi\<close> left it. It asks
  for a proxy number with the two integers, returns on an error, and inserts the two
  form values as they came. Rendering the page and the two notifications are left out.
\<close>

definition createRide ::
  "(string \<Rightarrow> cell) \<Rightarrow> Tables \<Rightarrow> int list list RideSharingDB \<Rightarrow> int \<Rightarrow> string \<Rightarrow> string \<Rightarrow> string \<Rightarrow>
   string \<Rightarrow> string \<Rightarrow> Tables" where
  "createRide store t dbdata rid startLocation destinationLocation dateTime customerID driverID =
     (let customerIDint = fst (Atoi customerID);
          driverIDint = fst (Atoi driverID);
          err = snd (Atoi driverID)
      in if err \<noteq> None then t
         else
           (case fst (getAvailableProxyNumber dbdata customerIDint driverIDint) of
              Inl err \<Rightarrow> t
            | Inr availableProxy \<Rightarrow>
                insertRide t rid startLocation destinationLocation dateTime
                  (store customerID) (store driverID) (Proxy_ID availableProxy)))"

text \<open>
  An engine that stores a decimal integer as that integer and keeps every other text as
  it is. SQLite's \<open>INTEGER\<close> affinity does so for the texts of the examples below:
  decimal integers, and a text with no number in it.
\<close>

definition decimalStore :: "string \<Rightarrow> cell" where
  "decimalStore s = (case Atoi s of (n, None) \<Rightarrow> IntCell n | (n, Some err) \<Rightarrow> TextCell s)"

text \<open>
  The tables that a sequence of such requests can lead to from \<open>t0\<close>, for the customer
  values that \<open>accepts\<close> lets through. Each request sees the rows of all the earlier
  ones, in whatever order Go iterates the maps, and its row gets a key no earlier row
  has.
\<close>

inductive committed ::
  "(string \<Rightarrow> cell) \<Rightarrow> (string \<Rightarrow> bool) \<Rightarrow> Tables \<Rightarrow> Tables \<Rightarrow> bool"
  for store :: "string \<Rightarrow> cell" and accepts :: "string \<Rightarrow> bool" and t0 :: Tables where
  committed_start: "committed store accepts t0 t0"
| committed_ride:
    "committed store accepts t0 t \<Longrightarrow> orderingOf dbdata (loadDB t) \<Longrightarrow>
     rid \<notin> row_id ` set (rides t) \<Longrightarrow> accepts customerID \<Longrightarrow>
     committed store accepts t0
       (createRide store t dbdata rid startLocation destinationLocation dateTime
          customerID driverID)"

text \<open>
  Two choices of \<open>accepts\<close>: every text, and the texts \<open>Atoi\<close> parses without an error.
\<close>

definition anyText :: "string \<Rightarrow> bool" where
  "anyText s \<longleftrightarrow> True"

definition integerText :: "string \<Rightarrow> bool" where
  "integerText s \<longleftrightarrow> snd (Atoi s) = None"

text \<open>
  No collision: two different rides on one proxy number have no identity in common,
  whether as customer or as driver.
\<close>

definition noCollision :: "'g RideType list \<Rightarrow> bool" where
  "noCollision rs \<longleftrightarrow>
     (\<forall>r1 \<in> set rs. \<forall>r2 \<in> set rs.
        r1 \<noteq> r2 \<and> Proxy_ID (ThisProxyNumber r1) = Proxy_ID (ThisProxyNumber r2) \<longrightarrow>
          Person_ID (ThisCustomer r1) \<notin> {Person_ID (ThisCustomer r2), Person_ID (ThisDriver r2)} \<and>
          Person_ID (ThisDriver r1) \<notin> {Person_ID (ThisCustomer r2), Person_ID (ThisDriver r2)})"

section \<open>Example data\<close>

text \<open>
  The rows \<open>initExampleDB\<close> leaves in a fresh database: two customers, two drivers and a
  pool of two proxy numbers, with the keys the database hands out, and no ride yet.
\<close>

definition exampleTables :: Tables where
  "exampleTables =
     \<lparr>customers = [(1, ''Caitlyn Carless'', ''319700000''), (2, ''Danny Bikes'', ''319700001'')],
      drivers = [(1, ''David Driver'', ''319700002''), (2, ''Eileen LaRue'', ''319700003'')],
      proxy_numbers = [(1, ''319700004''), (2, ''319700005'')],
      rides = []\<rparr>"

text \<open>A row of \<open>rides\<close> with integers in its three key columns and blank trip details.\<close>

definition pairing :: "int \<Rightarrow> int \<Rightarrow> int \<Rightarrow> int \<Rightarrow> ride_row" where
  "pairing rid customerID driverID numberID =
     \<lparr>row_id = rid, row_start = [], row_destination = [], row_datetime = [],
      customer_id = IntCell customerID, driver_id = IntCell driverID,
      number_id = IntCell numberID\<rparr>"

text \<open>
  Three histories over the example data. In \<open>oneRideTables\<close> Caitlyn rides with David
  on the first proxy number. In \<open>sharedTables\<close> Danny and Eileen have a ride on the same
  number. In \<open>threeRideTables\<close> Caitlyn also has a ride with Eileen, on the second
  number. Each is what \<open>createRide\<close> produces from the example data.
\<close>

definition oneRideTables :: Tables where
  "oneRideTables = exampleTables\<lparr>rides := [pairing 1 1 1 1]\<rparr>"

definition sharedTables :: Tables where
  "sharedTables = exampleTables\<lparr>rides := [pairing 1 1 1 1, pairing 2 2 2 1]\<rparr>"

definition threeRideTables :: Tables where
  "threeRideTables =
     exampleTables\<lparr>rides := [pairing 1 1 1 1, pairing 2 1 2 2, pairing 3 2 2 1]\<rparr>"

text \<open>The parties of the rides of a snapshot: customer number, driver number, proxy number.\<close>

definition parties :: "'g RideSharingDB \<Rightarrow> (string \<times> string \<times> string) list" where
  "parties dbdata =
     map (\<lambda>(k, v). (Person_Number (ThisCustomer v), Person_Number (ThisDriver v),
                     Proxy_Number (ThisProxyNumber v)))
       (Rides dbdata)"

text \<open>The same snapshot with the rides visited in the opposite order.\<close>

definition ridesReversed :: "'g RideSharingDB \<Rightarrow> 'g RideSharingDB" where
  "ridesReversed dbdata = dbdata\<lparr>Rides := rev (Rides dbdata)\<rparr>"

text \<open>
  The history of the rotation example when the customers and the drivers carry the same
  keys: Caitlyn (customer 1) rides with Eileen (driver 2) on the first proxy number and
  with David (driver 1) on the second.
\<close>

definition clashTables :: Tables where
  "clashTables = exampleTables\<lparr>rides := [pairing 1 1 2 1, pairing 2 1 1 2]\<rparr>"

text \<open>
  The rows two requests with the customer value \<open>abc\<close> leave, for the drivers 1 and 2.
\<close>

definition unparsedRow :: "int \<Rightarrow> int \<Rightarrow> ride_row" where
  "unparsedRow rid driverID =
     \<lparr>row_id = rid, row_start = [], row_destination = [], row_datetime = [],
      customer_id = TextCell ''abc'', driver_id = IntCell driverID, number_id = IntCell 1\<rparr>"

definition unparsedTables :: Tables where
  "unparsedTables = exampleTables\<lparr>rides := [unparsedRow 1 1, unparsedRow 2 2]\<rparr>"

text \<open>The keys of the rides of a snapshot: ride, customer, driver, proxy number.\<close>

definition keys :: "'g RideSharingDB \<Rightarrow> (int \<times> int \<times> int \<times> int) list" where
  "keys dbdata =
     map (\<lambda>(k, v). (Ride_ID v, Person_ID (ThisCustomer v), Person_ID (ThisDriver v),
                     Proxy_ID (ThisProxyNumber v)))
       (Rides dbdata)"

text \<open>The same snapshot with the pool visited in the opposite order.\<close>

definition poolReversed :: "'g RideSharingDB \<Rightarrow> 'g RideSharingDB" where
  "poolReversed dbdata = dbdata\<lparr>ProxyNumbers := rev (ProxyNumbers dbdata)\<rparr>"

section \<open>Properties of the assignment\<close>

subsection \<open>The loops of getAvailableProxyNumber\<close>

lemma containsNumGrp_iff: "containsNumGrp arr findme \<longleftrightarrow> findme \<in> set arr"
  by (induction arr) auto

lemma set_collectProxySets:
  "set (collectProxySets rs acc) = set acc \<union> (\<Union>r \<in> set rs. set (NumGrp (snd r)))"
  by (induction rs acc rule: collectProxySets.induct) auto

lemma pickProxy_Inr:
  "pickProxy pool S c d = Inr v \<Longrightarrow>
     v \<in> snd ` set pool \<and> [c, Proxy_ID v] \<notin> set S \<and> [d, Proxy_ID v] \<notin> set S"
  by (induction pool S c d rule: pickProxy.induct) (auto simp: containsNumGrp_iff split: if_splits)

lemma pickProxy_none:
  "\<forall>v \<in> snd ` set pool. [c, Proxy_ID v] \<in> set S \<or> [d, Proxy_ID v] \<in> set S \<Longrightarrow>
     pickProxy pool S c d = Inl noAvailable"
  by (induction pool S c d rule: pickProxy.induct) (auto simp: containsNumGrp_iff)

lemma pickProxy_only:
  "v \<in> snd ` set pool \<Longrightarrow> [c, Proxy_ID v] \<notin> set S \<Longrightarrow> [d, Proxy_ID v] \<notin> set S \<Longrightarrow>
   \<forall>u \<in> snd ` set pool. u \<noteq> v \<longrightarrow> [c, Proxy_ID u] \<in> set S \<or> [d, Proxy_ID u] \<in> set S \<Longrightarrow>
     pickProxy pool S c d = Inr v"
  by (induction pool S c d rule: pickProxy.induct) (auto simp: containsNumGrp_iff)

lemma allocate_nonempty:
  "Rides db \<noteq> [] \<Longrightarrow>
     fst (getAvailableProxyNumber db c d) =
       pickProxy (ProxyNumbers db) (collectProxySets (Rides db) []) c d"
  by (simp add: getAvailableProxyNumber_def Let_def)

text \<open>
  A proxy number that comes back is in the pool, and neither of its two sets with the
  requested identities is a set of a ride in the history.
\<close>

lemma allocate_sound:
  assumes "fst (getAvailableProxyNumber db c d) = Inr v"
  shows "v \<in> snd ` set (ProxyNumbers db)"
    and "\<forall>r \<in> set (Rides db). [c, Proxy_ID v] \<notin> set (NumGrp (snd r)) \<and>
                               [d, Proxy_ID v] \<notin> set (NumGrp (snd r))"
proof -
  show "v \<in> snd ` set (ProxyNumbers db)"
  proof (cases "Rides db = []")
    case True
    with assms show ?thesis
      by (cases "ProxyNumbers db") (auto simp: getAvailableProxyNumber_def)
  next
    case False
    with assms pickProxy_Inr show ?thesis
      by (simp add: allocate_nonempty)
  qed
  show "\<forall>r \<in> set (Rides db). [c, Proxy_ID v] \<notin> set (NumGrp (snd r)) \<and>
                               [d, Proxy_ID v] \<notin> set (NumGrp (snd r))"
  proof (cases "Rides db = []")
    case True
    then show ?thesis by simp
  next
    case False
    with assms have "pickProxy (ProxyNumbers db) (collectProxySets (Rides db) []) c d = Inr v"
      by (simp add: allocate_nonempty)
    from pickProxy_Inr [OF this] show ?thesis
      by (simp add: set_collectProxySets)
  qed
qed

subsection \<open>What loadDB builds\<close>

lemma joinPerson_ID: "Person_ID (joinPerson here p) = Person_ID p"
  by (induction here p rule: joinPerson.induct) auto

lemma joinProxy_ID: "Proxy_ID (joinProxy here p) = Proxy_ID p"
  by (induction here p rule: joinProxy.induct) auto

lemma loadRide_fields:
  "Ride_ID (loadRide hereC hereD hereP row) = row_id row"
  "Person_ID (ThisCustomer (loadRide hereC hereD hereP row)) = scannedCustomer row"
  "Person_ID (ThisDriver (loadRide hereC hereD hereP row)) = scannedDriver row"
  "Proxy_ID (ThisProxyNumber (loadRide hereC hereD hereP row)) = scannedProxy row"
  "NumGrp (loadRide hereC hereD hereP row) =
     [[scannedCustomer row, scannedProxy row], [scannedDriver row, scannedProxy row]]"
  by (simp_all add: loadRide_def Let_def joinPerson_ID joinProxy_ID)

lemma scanned_pairing:
  "scannedCustomer (pairing k c d p) = c"
  "scannedDriver (pairing k c d p) = d"
  "scannedProxy (pairing k c d p) = p"
  "row_id (pairing k c d p) = k"
  by (simp_all add: scannedCustomer_def scannedDriver_def scannedProxy_def scanIDs_def
      scanInt_def pairing_def)

lemma mapPut_fresh: "k \<notin> fst ` set m \<Longrightarrow> mapPut k v m = m @ [(k, v)]"
  by (induction m) auto

lemma loadRides_fresh:
  "distinct (map row_id rows) \<Longrightarrow> fst ` set here \<inter> row_id ` set rows = {} \<Longrightarrow>
     loadRides hereC hereD hereP rows here =
       here @ map (\<lambda>row. (row_id row, loadRide hereC hereD hereP row)) rows"
proof (induction rows arbitrary: here)
  case Nil
  then show ?case by simp
next
  case (Cons row rows)
  have fresh: "row_id row \<notin> fst ` set here"
    using Cons.prems(2) by auto
  have "loadRides hereC hereD hereP (row # rows) here =
          loadRides hereC hereD hereP rows (here @ [(row_id row, loadRide hereC hereD hereP row)])"
    by (simp add: loadRide_fields mapPut_fresh [OF fresh])
  also have "\<dots> = (here @ [(row_id row, loadRide hereC hereD hereP row)]) @
                    map (\<lambda>row. (row_id row, loadRide hereC hereD hereP row)) rows"
    using Cons.prems by (intro Cons.IH) auto
  finally show ?case by simp
qed

lemma Rides_loadDB:
  "distinct (map row_id (rides t)) \<Longrightarrow>
     Rides (loadDB t) =
       map (\<lambda>row. (row_id row,
              loadRide (Customers (loadDB t)) (Drivers (loadDB t)) (ProxyNumbers (loadDB t)) row))
         (rides t)"
  by (simp add: loadDB_def Let_def loadRides_fresh)

lemma orderingOf_refl: "orderingOf db db"
  by (simp add: orderingOf_def)

lemma orderingOf_sets:
  assumes "orderingOf db db0"
  shows "set (Rides db) = set (Rides db0)"
    and "set (ProxyNumbers db) = set (ProxyNumbers db0)"
    and "Rides db = [] \<longleftrightarrow> Rides db0 = []"
  using assms mset_eq_setD [of "Rides db" "Rides db0"]
    mset_eq_setD [of "ProxyNumbers db" "ProxyNumbers db0"]
    mset_eq_length [of "Rides db" "Rides db0"]
  by (auto simp: orderingOf_def)

lemma snapshot_sets:
  assumes "orderingOf db (loadDB t)" and "distinct (map row_id (rides t))"
  shows "snd ` set (Rides db) =
           loadRide (Customers (loadDB t)) (Drivers (loadDB t)) (ProxyNumbers (loadDB t)) `
             set (rides t)"
    and "set (ProxyNumbers db) = set (ProxyNumbers (loadDB t))"
    and "Rides db = [] \<longleftrightarrow> rides t = []"
proof -
  have "set (Rides db) = set (Rides (loadDB t))"
    using assms(1) by (rule orderingOf_sets)
  then show "snd ` set (Rides db) =
           loadRide (Customers (loadDB t)) (Drivers (loadDB t)) (ProxyNumbers (loadDB t)) `
             set (rides t)"
    by (simp add: Rides_loadDB [OF assms(2)] image_image)
  show "set (ProxyNumbers db) = set (ProxyNumbers (loadDB t))"
    using assms(1) by (rule orderingOf_sets)
  show "Rides db = [] \<longleftrightarrow> rides t = []"
    using orderingOf_sets(3) [OF assms(1)] by (simp add: Rides_loadDB [OF assms(2)])
qed

lemma snapshot_proxySets:
  assumes "orderingOf db (loadDB t)" and "distinct (map row_id (rides t))"
  shows "set (collectProxySets (Rides db) []) =
           (\<Union>y \<in> set (rides t). {[scannedCustomer y, scannedProxy y], [scannedDriver y, scannedProxy y]})"
proof -
  have "(\<Union>r \<in> set (Rides db). set (NumGrp (snd r))) =
          (\<Union>r \<in> snd ` set (Rides db). set (NumGrp r))"
    by simp
  also have "\<dots> =
          (\<Union>y \<in> set (rides t). {[scannedCustomer y, scannedProxy y], [scannedDriver y, scannedProxy y]})"
    unfolding snapshot_sets(1) [OF assms] by (simp add: loadRide_fields)
  finally show ?thesis
    by (simp add: set_collectProxySets)
qed

subsection \<open>The result on a history that is not empty\<close>

text \<open>
  The error comes back when every proxy number of the pool is the number of a ride
  that has one of the two identities, as customer or as driver.
\<close>

lemma allocate_none:
  assumes "orderingOf db (loadDB t)" and "distinct (map row_id (rides t))" and "rides t \<noteq> []"
    and "\<forall>v \<in> snd ` set (ProxyNumbers (loadDB t)). \<exists>y \<in> set (rides t).
           scannedProxy y = Proxy_ID v \<and>
           (c = scannedCustomer y \<or> c = scannedDriver y \<or> d = scannedCustomer y \<or> d = scannedDriver y)"
  shows "fst (getAvailableProxyNumber db c d) = Inl noAvailable"
proof -
  have ne: "Rides db \<noteq> []"
    using snapshot_sets(3) [OF assms(1,2)] assms(3) by simp
  show ?thesis
    unfolding allocate_nonempty [OF ne]
  proof (rule pickProxy_none, rule ballI)
    fix v
    assume "v \<in> snd ` set (ProxyNumbers db)"
    then have "v \<in> snd ` set (ProxyNumbers (loadDB t))"
      by (simp add: snapshot_sets(2) [OF assms(1,2)])
    with assms(4) obtain y where "y \<in> set (rides t)" "scannedProxy y = Proxy_ID v"
      "c = scannedCustomer y \<or> c = scannedDriver y \<or> d = scannedCustomer y \<or> d = scannedDriver y"
      by blast
    then show "[c, Proxy_ID v] \<in> set (collectProxySets (Rides db) []) \<or>
               [d, Proxy_ID v] \<in> set (collectProxySets (Rides db) [])"
      unfolding snapshot_proxySets [OF assms(1,2)] by auto
  qed
qed

text \<open>
  When exactly one proxy number of the pool is free for the two identities, that number
  comes back, in whatever order the pool is visited.
\<close>

lemma allocate_only:
  assumes "orderingOf db (loadDB t)" and "distinct (map row_id (rides t))" and "rides t \<noteq> []"
    and "v \<in> snd ` set (ProxyNumbers (loadDB t))"
    and "\<forall>y \<in> set (rides t). scannedProxy y = Proxy_ID v \<longrightarrow>
           c \<noteq> scannedCustomer y \<and> c \<noteq> scannedDriver y \<and> d \<noteq> scannedCustomer y \<and> d \<noteq> scannedDriver y"
    and "\<forall>u \<in> snd ` set (ProxyNumbers (loadDB t)). u \<noteq> v \<longrightarrow> (\<exists>y \<in> set (rides t).
           scannedProxy y = Proxy_ID u \<and>
           (c = scannedCustomer y \<or> c = scannedDriver y \<or> d = scannedCustomer y \<or> d = scannedDriver y))"
  shows "fst (getAvailableProxyNumber db c d) = Inr v"
proof -
  have ne: "Rides db \<noteq> []"
    using snapshot_sets(3) [OF assms(1,2)] assms(3) by simp
  show ?thesis
    unfolding allocate_nonempty [OF ne]
  proof (rule pickProxy_only)
    show "v \<in> snd ` set (ProxyNumbers db)"
      using assms(4) by (simp add: snapshot_sets(2) [OF assms(1,2)])
    show "[c, Proxy_ID v] \<notin> set (collectProxySets (Rides db) [])"
      unfolding snapshot_proxySets [OF assms(1,2)] using assms(5) by auto
    show "[d, Proxy_ID v] \<notin> set (collectProxySets (Rides db) [])"
      unfolding snapshot_proxySets [OF assms(1,2)] using assms(5) by auto
    show "\<forall>u \<in> snd ` set (ProxyNumbers db). u \<noteq> v \<longrightarrow>
            [c, Proxy_ID u] \<in> set (collectProxySets (Rides db) []) \<or>
            [d, Proxy_ID u] \<in> set (collectProxySets (Rides db) [])"
    proof (intro ballI impI)
      fix u
      assume "u \<in> snd ` set (ProxyNumbers db)" and "u \<noteq> v"
      then have "u \<in> snd ` set (ProxyNumbers (loadDB t))" "u \<noteq> v"
        by (simp_all add: snapshot_sets(2) [OF assms(1,2)])
      with assms(6) obtain y where "y \<in> set (rides t)" "scannedProxy y = Proxy_ID u"
        "c = scannedCustomer y \<or> c = scannedDriver y \<or> d = scannedCustomer y \<or> d = scannedDriver y"
        by blast
      then show "[c, Proxy_ID u] \<in> set (collectProxySets (Rides db) []) \<or>
                 [d, Proxy_ID u] \<in> set (collectProxySets (Rides db) [])"
        unfolding snapshot_proxySets [OF assms(1,2)] by auto
    qed
  qed
qed

lemma pool_one:
  "snd ` set (ProxyNumbers
      (loadDB \<lparr>customers = cs, drivers = ds, proxy_numbers = [(p1, n1)], rides = h\<rparr>))
     = {\<lparr>Proxy_ID = p1, Proxy_Number = n1\<rparr>}"
  by (simp add: loadDB_def Let_def scanProxy_def)

lemma pool_two:
  "p1 \<noteq> p2 \<Longrightarrow>
   snd ` set (ProxyNumbers
      (loadDB \<lparr>customers = cs, drivers = ds, proxy_numbers = [(p1, n1), (p2, n2)], rides = h\<rparr>))
     = {\<lparr>Proxy_ID = p1, Proxy_Number = n1\<rparr>, \<lparr>Proxy_ID = p2, Proxy_Number = n2\<rparr>}"
  by (simp add: loadDB_def Let_def scanProxy_def)

subsection \<open>The example histories\<close>

lemmas atoi_defs = Atoi_def parseDigits_def isDigit_def decimalStore_def

lemmas example_defs =
  exampleTables_def oneRideTables_def sharedTables_def threeRideTables_def pairing_def
  loadDB_def loadRide_def scanPerson_def scanProxy_def Let_def
  scannedCustomer_def scannedDriver_def scannedProxy_def scanIDs_def scanInt_def

lemma committed_oneRideTables: "committed decimalStore anyText exampleTables oneRideTables"
proof -
  have step: "createRide decimalStore exampleTables (loadDB exampleTables) 1 [] [] [] ''1'' ''1'' =
          oneRideTables"
    by (simp add: example_defs atoi_defs createRide_def insertRide_def
        getAvailableProxyNumber_def)
  have fresh: "1 \<notin> row_id ` set (rides exampleTables)"
    by (simp add: exampleTables_def)
  have "committed decimalStore anyText exampleTables
          (createRide decimalStore exampleTables (loadDB exampleTables) 1 [] [] [] ''1'' ''1'')"
    by (rule committed_ride [where accepts = anyText, OF committed_start orderingOf_refl fresh])
      (simp add: anyText_def)
  then show ?thesis
    by (simp only: step)
qed

lemma committed_sharedTables: "committed decimalStore anyText exampleTables sharedTables"
proof -
  have step: "createRide decimalStore oneRideTables (loadDB oneRideTables) 2 [] [] [] ''2'' ''2'' =
          sharedTables"
    by (simp add: example_defs atoi_defs createRide_def insertRide_def
        getAvailableProxyNumber_def)
  have fresh: "2 \<notin> row_id ` set (rides oneRideTables)"
    by (simp add: example_defs)
  have "committed decimalStore anyText exampleTables
          (createRide decimalStore oneRideTables (loadDB oneRideTables) 2 [] [] [] ''2'' ''2'')"
    by (rule committed_ride [where accepts = anyText,
          OF committed_oneRideTables orderingOf_refl fresh])
      (simp add: anyText_def)
  then show ?thesis
    by (simp only: step)
qed

lemma committed_threeRideTables: "committed decimalStore anyText exampleTables threeRideTables"
proof -
  let ?t2 = "exampleTables\<lparr>rides := [pairing 1 1 1 1, pairing 2 1 2 2]\<rparr>"
  have step2: "createRide decimalStore oneRideTables (loadDB oneRideTables) 2 [] [] [] ''1'' ''2'' =
          ?t2"
    by (simp add: example_defs atoi_defs createRide_def insertRide_def
        getAvailableProxyNumber_def)
  have fresh2: "2 \<notin> row_id ` set (rides oneRideTables)"
    by (simp add: example_defs)
  have "committed decimalStore anyText exampleTables
          (createRide decimalStore oneRideTables (loadDB oneRideTables) 2 [] [] [] ''1'' ''2'')"
    by (rule committed_ride [where accepts = anyText,
          OF committed_oneRideTables orderingOf_refl fresh2])
      (simp add: anyText_def)
  then have c2: "committed decimalStore anyText exampleTables ?t2"
    by (simp only: step2)
  have step3: "createRide decimalStore ?t2 (loadDB ?t2) 3 [] [] [] ''2'' ''2'' = threeRideTables"
    by (simp add: example_defs atoi_defs createRide_def insertRide_def
        getAvailableProxyNumber_def)
  have fresh3: "3 \<notin> row_id ` set (rides ?t2)"
    by (simp add: example_defs)
  have "committed decimalStore anyText exampleTables
          (createRide decimalStore ?t2 (loadDB ?t2) 3 [] [] [] ''2'' ''2'')"
    by (rule committed_ride [where accepts = anyText, OF c2 orderingOf_refl fresh3])
      (simp add: anyText_def)
  then show ?thesis
    by (simp only: step3)
qed

subsection \<open>Empty history\<close>

text \<open>
  Claim C5. With no ride in the history and a pool that is not empty,
  \<open>getAvailableProxyNumber\<close> returns a proxy number, the number is an entry of the
  pool, and the call does not end in the error "no available proxy numbers".
\<close>

theorem allocate_empty_history:
  "Rides db = [] \<Longrightarrow> ProxyNumbers db \<noteq> [] \<Longrightarrow>
     (\<exists>v. fst (getAvailableProxyNumber db customerID driverID) = Inr v \<and>
          v \<in> snd ` set (ProxyNumbers db)) \<and>
     fst (getAvailableProxyNumber db customerID driverID) \<noteq> Inl noAvailable"
  by (cases "ProxyNumbers db") (auto simp: getAvailableProxyNumber_def)

theorem allocate_empty_history_witness:
  "Rides (loadDB exampleTables) = [] \<and> ProxyNumbers (loadDB exampleTables) \<noteq> [] \<and>
   (\<exists>v. fst (getAvailableProxyNumber (loadDB exampleTables) 1 2) = Inr v \<and>
        v \<in> snd ` set (ProxyNumbers (loadDB exampleTables))) \<and>
   fst (getAvailableProxyNumber (loadDB exampleTables) 1 2) \<noteq> Inl noAvailable"
proof -
  have r: "Rides (loadDB exampleTables) = []"
    by (simp add: loadDB_def exampleTables_def)
  have p: "ProxyNumbers (loadDB exampleTables) \<noteq> []"
    by (simp add: loadDB_def exampleTables_def)
  show ?thesis
    using r p allocate_empty_history [OF r p, of 1 2] by blast
qed

subsection \<open>Exhaustion\<close>

text \<open>
  Claim C6. The pool holds one proxy number P1 and the history one ride, of customer 1
  with driver 2 on P1. In whatever order the snapshot is iterated, a request for
  customer 1 and driver 3 ends in the error "no available proxy numbers", and a request
  for customer 5 and driver 6 returns P1.
\<close>

theorem exhaustion_scenario:
  assumes "orderingOf db (loadDB \<lparr>customers = cs, drivers = ds, proxy_numbers = [(p1, n1)],
                                   rides = [pairing k 1 2 p1]\<rparr>)"
  shows "fst (getAvailableProxyNumber db 1 3) = Inl noAvailable \<and>
         fst (getAvailableProxyNumber db 5 6) = Inr \<lparr>Proxy_ID = p1, Proxy_Number = n1\<rparr>"
proof
  show "fst (getAvailableProxyNumber db 1 3) = Inl noAvailable"
    by (rule allocate_none [OF assms]) (simp_all add: pool_one scanned_pairing)
  show "fst (getAvailableProxyNumber db 5 6) = Inr \<lparr>Proxy_ID = p1, Proxy_Number = n1\<rparr>"
    by (rule allocate_only [OF assms]) (simp_all add: pool_one scanned_pairing)
qed

theorem exhaustion_scenario_witness:
  "orderingOf
     (loadDB \<lparr>customers = [], drivers = [], proxy_numbers = [(1, ''319700004'')],
              rides = [pairing 1 1 2 1]\<rparr>)
     (loadDB \<lparr>customers = [], drivers = [], proxy_numbers = [(1, ''319700004'')],
              rides = [pairing 1 1 2 1]\<rparr>) \<and>
   fst (getAvailableProxyNumber
     (loadDB \<lparr>customers = [], drivers = [], proxy_numbers = [(1, ''319700004'')],
              rides = [pairing 1 1 2 1]\<rparr>) 1 3) = Inl noAvailable \<and>
   fst (getAvailableProxyNumber
     (loadDB \<lparr>customers = [], drivers = [], proxy_numbers = [(1, ''319700004'')],
              rides = [pairing 1 1 2 1]\<rparr>) 5 6) =
     Inr \<lparr>Proxy_ID = 1, Proxy_Number = ''319700004''\<rparr>"
  using orderingOf_refl exhaustion_scenario [OF orderingOf_refl, of "[]" "[]" 1 "''319700004''" 1]
  by blast

subsection \<open>Rotation\<close>

text \<open>
  Customers A and B, drivers C and D, proxy numbers V1 and V2, identities being the
  integer keys the code compares. With the ride of A with C on V1 in the history, a
  request for A and D ends in the error on the pool of V1 alone and returns V2 on the
  pool of V1 and V2. With the rides of A with C on V1 and of A with D on V2 in the
  history, a request for B and D on the pool of V1 and V2 returns V1, provided the keys
  of B and of D each differ from the keys of A and of C. All three hold in whatever
  order the snapshot is iterated.
\<close>

lemma rotation_distinct_keys:
  assumes "orderingOf db1 (loadDB \<lparr>customers = cs, drivers = ds, proxy_numbers = [(p1, n1)],
                                    rides = [pairing k1 a c p1]\<rparr>)"
    and "orderingOf db2 (loadDB \<lparr>customers = cs, drivers = ds,
                                  proxy_numbers = [(p1, n1), (p2, n2)],
                                  rides = [pairing k1 a c p1]\<rparr>)"
    and "orderingOf db3 (loadDB \<lparr>customers = cs, drivers = ds,
                                  proxy_numbers = [(p1, n1), (p2, n2)],
                                  rides = [pairing k1 a c p1, pairing k2 a d p2]\<rparr>)"
    and "p1 \<noteq> p2" and "k1 \<noteq> k2" and "b \<noteq> a" and "b \<noteq> c" and "d \<noteq> a" and "d \<noteq> c"
  shows "fst (getAvailableProxyNumber db1 a d) = Inl noAvailable \<and>
         fst (getAvailableProxyNumber db2 a d) = Inr \<lparr>Proxy_ID = p2, Proxy_Number = n2\<rparr> \<and>
         fst (getAvailableProxyNumber db3 b d) = Inr \<lparr>Proxy_ID = p1, Proxy_Number = n1\<rparr>"
proof (intro conjI)
  show "fst (getAvailableProxyNumber db1 a d) = Inl noAvailable"
    by (rule allocate_none [OF assms(1)]) (simp_all add: pool_one scanned_pairing)
  show "fst (getAvailableProxyNumber db2 a d) = Inr \<lparr>Proxy_ID = p2, Proxy_Number = n2\<rparr>"
    using assms(4) by (intro allocate_only [OF assms(2)]) (auto simp: pool_two scanned_pairing)
  show "fst (getAvailableProxyNumber db3 b d) = Inr \<lparr>Proxy_ID = p1, Proxy_Number = n1\<rparr>"
    using assms(4-) by (intro allocate_only [OF assms(3)]) (auto simp: pool_two scanned_pairing)
qed

text \<open>
  The sets of a request are compared with the sets of the rides by key alone, and
  customers and drivers are keyed in tables of their own. When the key of customer B is
  the key of driver C, the request for B and D is refused V1 because of C, and V2
  because of D: it ends in the error in every order of the snapshot.
\<close>

lemma rotation_key_clash:
  assumes "orderingOf db (loadDB \<lparr>customers = cs, drivers = ds,
                                  proxy_numbers = [(p1, n1), (p2, n2)],
                                  rides = [pairing k1 a c p1, pairing k2 a d p2]\<rparr>)"
    and "p1 \<noteq> p2" and "k1 \<noteq> k2"
  shows "fst (getAvailableProxyNumber db c d) = Inl noAvailable"
  using assms(2,3) by (intro allocate_none [OF assms(1)]) (auto simp: pool_two scanned_pairing)

lemma committed_clashTables: "committed decimalStore anyText exampleTables clashTables"
proof -
  let ?t1 = "exampleTables\<lparr>rides := [pairing 1 1 2 1]\<rparr>"
  have step1: "createRide decimalStore exampleTables (loadDB exampleTables) 1 [] [] [] ''1'' ''2'' =
          ?t1"
    by (simp add: example_defs atoi_defs createRide_def insertRide_def
        getAvailableProxyNumber_def)
  have fresh1: "1 \<notin> row_id ` set (rides exampleTables)"
    by (simp add: exampleTables_def)
  have "committed decimalStore anyText exampleTables
          (createRide decimalStore exampleTables (loadDB exampleTables) 1 [] [] [] ''1'' ''2'')"
    by (rule committed_ride [where accepts = anyText, OF committed_start orderingOf_refl fresh1])
      (simp add: anyText_def)
  then have c1: "committed decimalStore anyText exampleTables ?t1"
    by (simp only: step1)
  have step2: "createRide decimalStore ?t1 (loadDB ?t1) 2 [] [] [] ''1'' ''1'' = clashTables"
    by (simp add: example_defs atoi_defs clashTables_def createRide_def insertRide_def
        getAvailableProxyNumber_def)
  have fresh2: "2 \<notin> row_id ` set (rides ?t1)"
    by (simp add: example_defs)
  have "committed decimalStore anyText exampleTables
          (createRide decimalStore ?t1 (loadDB ?t1) 2 [] [] [] ''1'' ''1'')"
    by (rule committed_ride [where accepts = anyText, OF c1 orderingOf_refl fresh2])
      (simp add: anyText_def)
  then show ?thesis
    by (simp only: step2)
qed

text \<open>
  Claim C7. On the example data let A be Caitlyn (customer 1), B Danny (customer 2), C
  Eileen (driver 2) and D David (driver 1). With the ride of A with C on the first
  proxy number in the history, the request for A and D ends in the error on the pool of
  that number alone and returns the second number on the pool of both, as the claim
  says. With the rides of A with C on the first and of A with D on the second number in
  the history, the request for B and D on the pool of both ends in the error, in all
  four orders of the pool and the rides, where the claim says it succeeds.
\<close>

theorem rotation_shared_keys:
  "fst (getAvailableProxyNumber
          (loadDB (exampleTables\<lparr>proxy_numbers := [(1, ''319700004'')],
                                 rides := [pairing 1 1 2 1]\<rparr>)) 1 1) = Inl noAvailable \<and>
   fst (getAvailableProxyNumber (loadDB (exampleTables\<lparr>rides := [pairing 1 1 2 1]\<rparr>)) 1 1) =
     Inr \<lparr>Proxy_ID = 2, Proxy_Number = ''319700005''\<rparr> \<and>
   keys (loadDB clashTables) = [(1, 1, 2, 1), (2, 1, 1, 2)] \<and>
   fst (getAvailableProxyNumber (loadDB clashTables) 2 1) = Inl noAvailable \<and>
   fst (getAvailableProxyNumber (poolReversed (loadDB clashTables)) 2 1) = Inl noAvailable \<and>
   fst (getAvailableProxyNumber (ridesReversed (loadDB clashTables)) 2 1) = Inl noAvailable \<and>
   fst (getAvailableProxyNumber (poolReversed (ridesReversed (loadDB clashTables))) 2 1) =
     Inl noAvailable"
  by (simp add: example_defs clashTables_def keys_def poolReversed_def ridesReversed_def
      getAvailableProxyNumber_def)

subsection \<open>No collision\<close>

lemma createRide_cases:
  obtains (failed) "createRide store t db rid s dst dt customerID driverID = t"
  | (inserted) v where "snd (Atoi driverID) = None"
      "fst (getAvailableProxyNumber db (fst (Atoi customerID)) (fst (Atoi driverID))) = Inr v"
      "createRide store t db rid s dst dt customerID driverID =
         insertRide t rid s dst dt (store customerID) (store driverID) (Proxy_ID v)"
proof (cases "snd (Atoi driverID) = None")
  case False
  then have "createRide store t db rid s dst dt customerID driverID = t"
    by (simp add: createRide_def Let_def)
  then show ?thesis by (rule failed)
next
  case True
  show ?thesis
  proof (cases "fst (getAvailableProxyNumber db (fst (Atoi customerID)) (fst (Atoi driverID)))")
    case (Inl e)
    with True have "createRide store t db rid s dst dt customerID driverID = t"
      by (simp add: createRide_def Let_def)
    then show ?thesis by (rule failed)
  next
    case (Inr v)
    with True have "createRide store t db rid s dst dt customerID driverID =
         insertRide t rid s dst dt (store customerID) (store driverID) (Proxy_ID v)"
      by (simp add: createRide_def Let_def)
    with True Inr show ?thesis by (rule inserted)
  qed
qed

lemma scanned_IntCells:
  assumes "customer_id row = IntCell c" and "driver_id row = IntCell d"
    and "number_id row = IntCell p"
  shows "scannedCustomer row = c" and "scannedDriver row = d" and "scannedProxy row = p"
  using assms
  by (simp_all add: scannedCustomer_def scannedDriver_def scannedProxy_def scanIDs_def
      scanInt_def)

text \<open>
  When every request carries a customer value that parses, and the engine stores the
  texts that parse as their integers, the rows keep this invariant: the keys are
  distinct, and two rows with the same proxy number have no identity in common.
\<close>

lemma committed_rows:
  assumes "committed store integerText t0 t" and "rides t0 = []"
    and "\<And>s. integerText s \<Longrightarrow> store s = IntCell (fst (Atoi s))"
  shows "distinct (map row_id (rides t)) \<and>
         (\<forall>x \<in> set (rides t). \<forall>y \<in> set (rides t).
            row_id x \<noteq> row_id y \<and> scannedProxy x = scannedProxy y \<longrightarrow>
              scannedCustomer x \<notin> {scannedCustomer y, scannedDriver y} \<and>
              scannedDriver x \<notin> {scannedCustomer y, scannedDriver y})"
  using assms(1,2)
proof (induction rule: committed.induct)
  case committed_start
  then show ?case by simp
next
  case (committed_ride t db rid customerID s dst dt driverID)
  then have dist: "distinct (map row_id (rides t))"
    and apart: "\<forall>x \<in> set (rides t). \<forall>y \<in> set (rides t).
            row_id x \<noteq> row_id y \<and> scannedProxy x = scannedProxy y \<longrightarrow>
              scannedCustomer x \<notin> {scannedCustomer y, scannedDriver y} \<and>
              scannedDriver x \<notin> {scannedCustomer y, scannedDriver y}"
    by simp_all
  show ?case
  proof (cases rule: createRide_cases [of store t db rid s dst dt customerID driverID])
    case failed
    with dist apart show ?thesis by simp
  next
    case (inserted v)
    let ?c = "fst (Atoi customerID)" and ?d = "fst (Atoi driverID)"
    let ?row = "\<lparr>row_id = rid, row_start = s, row_destination = dst, row_datetime = dt,
                  customer_id = IntCell ?c, driver_id = IntCell ?d,
                  number_id = IntCell (Proxy_ID v)\<rparr>"
    have "store customerID = IntCell ?c"
      using committed_ride.hyps(4) by (rule assms(3))
    moreover have "store driverID = IntCell ?d"
      using inserted(1) by (intro assms(3)) (simp add: integerText_def)
    ultimately have new: "rides (createRide store t db rid s dst dt customerID driverID) =
        rides t @ [?row]"
      by (simp add: inserted(3) insertRide_def)
    have row: "row_id ?row = rid" "scannedCustomer ?row = ?c" "scannedDriver ?row = ?d"
      "scannedProxy ?row = Proxy_ID v"
      by (simp_all add: scanned_IntCells)
    have "set (Rides db) = set (Rides (loadDB t))"
      using committed_ride.hyps(2) by (rule orderingOf_sets)
    with allocate_sound(2) [OF inserted(2)] Rides_loadDB [OF dist]
    have free: "\<forall>y \<in> set (rides t).
        scannedProxy y = Proxy_ID v \<longrightarrow> ?c \<noteq> scannedCustomer y \<and> ?c \<noteq> scannedDriver y \<and>
                                      ?d \<noteq> scannedCustomer y \<and> ?d \<noteq> scannedDriver y"
      by (auto simp: loadRide_fields)
    show ?thesis
      unfolding new
      using dist apart free committed_ride.hyps(3) row
      by (auto simp del: ride_row.simps)
  qed
qed

text \<open>
  For such requests, from a history with no ride, every snapshot of the resulting
  tables is free of collisions: two different rides with the same proxy number have no
  identity in common.
\<close>

lemma no_collision:
  assumes "committed store integerText t0 t" and "rides t0 = []"
    and "\<And>s. integerText s \<Longrightarrow> store s = IntCell (fst (Atoi s))"
    and "orderingOf db (loadDB t)"
  shows "noCollision (map snd (Rides db))"
proof -
  let ?load = "loadRide (Customers (loadDB t)) (Drivers (loadDB t)) (ProxyNumbers (loadDB t))"
  from committed_rows [OF assms(1,2,3)]
  have dist: "distinct (map row_id (rides t))"
    and apart: "\<forall>x \<in> set (rides t). \<forall>y \<in> set (rides t).
            row_id x \<noteq> row_id y \<and> scannedProxy x = scannedProxy y \<longrightarrow>
              scannedCustomer x \<notin> {scannedCustomer y, scannedDriver y} \<and>
              scannedDriver x \<notin> {scannedCustomer y, scannedDriver y}"
    by simp_all
  have rs: "set (map snd (Rides db)) = ?load ` set (rides t)"
    using snapshot_sets(1) [OF assms(4) dist] by simp
  show ?thesis
    unfolding noCollision_def rs
  proof (intro ballI impI)
    fix r1 r2
    assume r1: "r1 \<in> ?load ` set (rides t)"
      and r2: "r2 \<in> ?load ` set (rides t)"
      and ne: "r1 \<noteq> r2 \<and> Proxy_ID (ThisProxyNumber r1) = Proxy_ID (ThisProxyNumber r2)"
    from r1 obtain x where x: "x \<in> set (rides t)" "r1 = ?load x"
      by auto
    from r2 obtain y where y: "y \<in> set (rides t)" "r2 = ?load y"
      by auto
    from ne x(2) y(2) have "x \<noteq> y" by auto
    with dist x(1) y(1) have "row_id x \<noteq> row_id y"
      by (meson distinct_map inj_onD)
    moreover from ne have "scannedProxy x = scannedProxy y"
      by (simp add: x(2) y(2) loadRide_fields)
    ultimately show
      "Person_ID (ThisCustomer r1) \<notin> {Person_ID (ThisCustomer r2), Person_ID (ThisDriver r2)} \<and>
       Person_ID (ThisDriver r1) \<notin> {Person_ID (ThisCustomer r2), Person_ID (ThisDriver r2)}"
      using apart x(1) y(1) by (simp add: x(2) y(2) loadRide_fields)
  qed
qed

lemma committed_unparsedTables: "committed decimalStore anyText exampleTables unparsedTables"
proof -
  let ?t1 = "exampleTables\<lparr>rides := [unparsedRow 1 1]\<rparr>"
  have step1: "createRide decimalStore exampleTables (loadDB exampleTables) 1 [] [] [] ''abc'' ''1'' =
          ?t1"
    by (simp add: example_defs atoi_defs unparsedRow_def createRide_def insertRide_def
        getAvailableProxyNumber_def)
  have fresh1: "1 \<notin> row_id ` set (rides exampleTables)"
    by (simp add: exampleTables_def)
  have "committed decimalStore anyText exampleTables
          (createRide decimalStore exampleTables (loadDB exampleTables) 1 [] [] [] ''abc'' ''1'')"
    by (rule committed_ride [where accepts = anyText, OF committed_start orderingOf_refl fresh1])
      (simp add: anyText_def)
  then have c1: "committed decimalStore anyText exampleTables ?t1"
    by (simp only: step1)
  have step2: "createRide decimalStore ?t1 (loadDB ?t1) 2 [] [] [] ''abc'' ''2'' = unparsedTables"
    by (simp add: example_defs atoi_defs unparsedRow_def unparsedTables_def createRide_def
        insertRide_def getAvailableProxyNumber_def)
  have fresh2: "2 \<notin> row_id ` set (rides ?t1)"
    by (simp add: example_defs unparsedRow_def)
  have "committed decimalStore anyText exampleTables
          (createRide decimalStore ?t1 (loadDB ?t1) 2 [] [] [] ''abc'' ''2'')"
    by (rule committed_ride [where accepts = anyText, OF c1 orderingOf_refl fresh2])
      (simp add: anyText_def)
  then show ?thesis
    by (simp only: step2)
qed


lemma unparsed_snapshot_collides: "\<not> noCollision (map snd (Rides (loadDB unparsedTables)))"
proof -
  let ?rs = "map snd (Rides (loadDB unparsedTables))"
  have "?rs ! 0 \<in> set ?rs" "?rs ! 1 \<in> set ?rs"
    by (simp_all add: example_defs atoi_defs unparsedRow_def unparsedTables_def)
  moreover have "?rs ! 0 \<noteq> ?rs ! 1"
    "Proxy_ID (ThisProxyNumber (?rs ! 0)) = Proxy_ID (ThisProxyNumber (?rs ! 1))"
    "Person_ID (ThisCustomer (?rs ! 0)) = Person_ID (ThisCustomer (?rs ! 1))"
    by (simp_all add: example_defs atoi_defs unparsedRow_def unparsedTables_def)
  ultimately show ?thesis
    unfolding noCollision_def by blast
qed

section \<open>The memory after the call\<close>

subsection \<open>What the loops write\<close>

lemma prefix_length:
  assumes "take (length h0) h = h0"
  shows "length h0 \<le> length h"
proof -
  have "length h0 = length (take (length h0) h)"
    by (simp only: assms)
  then show ?thesis
    by simp
qed

lemma appendGroups_frame:
  assumes "appendGroups grow s elems m = (s', m')"
    and "sl_cap s = 0 \<or> length h0 \<le> sl_ptr s"
    and "take (length h0) (groupArrays m) = h0"
  shows "database m' = database m" and "intArrays m' = intArrays m"
    and "take (length h0) (groupArrays m') = h0"
    and "sl_cap s' = 0 \<or> length h0 \<le> sl_ptr s'"
proof -
  let ?n = "sl_len s + length elems"
  have le: "length h0 \<le> length (groupArrays m)"
    using assms(3) by (rule prefix_length)
  show "database m' = database m" "intArrays m' = intArrays m"
    using assms(1) by (auto simp: appendGroups_def Let_def split: if_splits)
  show "take (length h0) (groupArrays m') = h0"
  proof (cases "?n \<le> sl_cap s")
    case False
    with assms(1) have "groupArrays m' = groupArrays m @
        [groupsOf (groupArrays m) s @ elems @
         replicate (max ?n (grow (sl_cap s) ?n) - ?n) nilSlice]"
      by (auto simp: appendGroups_def Let_def)
    with le assms(3) show ?thesis by simp
  next
    case True
    with assms(1) have g: "groupArrays m' = (groupArrays m)
        [sl_ptr s := take (sl_len s) (groupArrays m ! sl_ptr s) @ elems @
                     drop ?n (groupArrays m ! sl_ptr s)]"
      by (auto simp: appendGroups_def Let_def)
    from assms(2) show ?thesis
    proof
      assume "sl_cap s = 0"
      with True have "sl_len s = 0" "elems = []" by simp_all
      with g have "groupArrays m' = groupArrays m" by simp
      with assms(3) show ?thesis by simp
    next
      assume "length h0 \<le> sl_ptr s"
      with g assms(3) show ?thesis by simp
    qed
  qed
  show "sl_cap s' = 0 \<or> length h0 \<le> sl_ptr s'"
  proof (cases "?n \<le> sl_cap s")
    case True
    with assms(1) have "s' = s\<lparr>sl_len := ?n\<rparr>"
      by (auto simp: appendGroups_def Let_def)
    with assms(2) show ?thesis by auto
  next
    case False
    with assms(1) have "sl_ptr s' = length (groupArrays m)"
      by (auto simp: appendGroups_def Let_def)
    with le show ?thesis by simp
  qed
qed

lemma collectProxySetsM_frame:
  assumes "collectProxySetsM grow rs s m = (s', m')"
    and "sl_cap s = 0 \<or> length h0 \<le> sl_ptr s"
    and "take (length h0) (groupArrays m) = h0"
  shows "database m' = database m \<and> intArrays m' = intArrays m \<and>
         take (length h0) (groupArrays m') = h0"
  using assms
proof (induction rs arbitrary: s m)
  case Nil
  then show ?case by simp
next
  case (Cons r rs)
  obtain k1 v1 where r: "r = (k1, v1)" by (cases r)
  obtain s1 m1 where a: "appendGroups grow s (groupsOf (groupArrays m) (NumGrp v1)) m = (s1, m1)"
    by (cases "appendGroups grow s (groupsOf (groupArrays m) (NumGrp v1)) m")
  with Cons.prems(1) have c: "collectProxySetsM grow rs s1 m1 = (s', m')"
    by (simp add: r)
  from appendGroups_frame [OF a Cons.prems(2,3)] Cons.IH [OF c]
  show ?case by simp
qed

lemma pickProxyM_frame:
  assumes "pickProxyM pool rps c d m = (res, m')"
    and "take (length i0) (intArrays m) = i0"
  shows "database m' = database m \<and> groupArrays m' = groupArrays m \<and>
         take (length i0) (intArrays m') = i0"
  using assms
proof (induction pool arbitrary: m)
  case Nil
  then show ?case by simp
next
  case (Cons p rest)
  obtain k2 v2 where p: "p = (k2, v2)" by (cases p)
  let ?m1 = "snd (newInts [c, Proxy_ID v2] m)" and ?f1 = "fst (newInts [c, Proxy_ID v2] m)"
  let ?m2 = "snd (newInts [d, Proxy_ID v2] ?m1)" and ?f2 = "fst (newInts [d, Proxy_ID v2] ?m1)"
  have le: "length i0 \<le> length (intArrays m)"
    using Cons.prems(2) by (rule prefix_length)
  have m1: "database ?m1 = database m" "groupArrays ?m1 = groupArrays m"
    "take (length i0) (intArrays ?m1) = i0"
    using le Cons.prems(2) by (simp_all add: newInts_def)
  have m2: "database ?m2 = database m" "groupArrays ?m2 = groupArrays m"
    "take (length i0) (intArrays ?m2) = i0"
    using le Cons.prems(2) by (simp_all add: newInts_def)
  show ?case
  proof (cases "containsNumGrpM ?m1 rps ?f1")
    case True
    with Cons.prems(1) have "pickProxyM rest rps c d ?m1 = (res, m')"
      by (simp add: p split_beta)
    from Cons.IH [OF this m1(3)] m1 show ?thesis by simp
  next
    case False
    show ?thesis
    proof (cases "containsNumGrpM ?m2 rps ?f2")
      case True
      with False Cons.prems(1) have "pickProxyM rest rps c d ?m2 = (res, m')"
        by (simp add: p split_beta)
      from Cons.IH [OF this m2(3)] m2 show ?thesis by simp
    next
      case f2: False
      with False Cons.prems(1) have "m' = ?m2"
        by (simp add: p split_beta)
      with m2 show ?thesis by simp
    qed
  qed
qed

text \<open>
  Claim C9. For every memory, growth policy of the runtime, customer and driver, and
  whether a proxy number or the error comes back: the struct behind \<open>dbdata\<close>, with its
  customers, drivers, pool, rides and message, is after the call what it was before,
  and so is every backing array that existed before the call. The call allocates arrays
  of its own and writes to those alone.
\<close>

theorem allocate_leaves_memory:
  "database (snd (getAvailableProxyNumberM grow m customerID driverID)) = database m \<and>
   take (length (groupArrays m))
     (groupArrays (snd (getAvailableProxyNumberM grow m customerID driverID))) = groupArrays m \<and>
   take (length (intArrays m))
     (intArrays (snd (getAvailableProxyNumberM grow m customerID driverID))) = intArrays m"
proof (cases "length (Rides (database m)) = 0")
  case True
  then show ?thesis
    by (simp add: getAvailableProxyNumberM_def split: list.split prod.split)
next
  case False
  obtain rps m1 where c: "collectProxySetsM grow (Rides (database m)) nilSlice m = (rps, m1)"
    by (cases "collectProxySetsM grow (Rides (database m)) nilSlice m")
  obtain res m2 where p: "pickProxyM (ProxyNumbers (database m1)) rps customerID driverID m1 = (res, m2)"
    by (cases "pickProxyM (ProxyNumbers (database m1)) rps customerID driverID m1")
  have r: "getAvailableProxyNumberM grow m customerID driverID = (res, m2)"
    using False c p by (simp add: getAvailableProxyNumberM_def)
  have 1: "database m1 = database m \<and> intArrays m1 = intArrays m \<and>
         take (length (groupArrays m)) (groupArrays m1) = groupArrays m"
    by (rule collectProxySetsM_frame [OF c]) (simp_all add: nilSlice_def)
  have 2: "database m2 = database m1 \<and> groupArrays m2 = groupArrays m1 \<and>
         take (length (intArrays m)) (intArrays m2) = intArrays m"
    by (rule pickProxyM_frame [OF p]) (simp add: 1)
  from 1 2 show ?thesis
    by (simp add: r)
qed

subsection \<open>The two models agree\<close>

text \<open>
  On a well-formed memory the call returns what \<open>getAvailableProxyNumber\<close> of the
  model above returns on the contents, and it leaves the contents as they were.
\<close>

lemma collectProxySets_concat:
  "collectProxySets rs acc = acc @ concat (map (\<lambda>r. NumGrp (snd r)) rs)"
  by (induction rs acc rule: collectProxySets.induct) auto

lemma groupsOf_prefix:
  assumes "take (length h0) h = h0" and "inRange h0 s"
  shows "groupsOf h s = groupsOf h0 s"
proof (cases "sl_len s = 0")
  case True
  then show ?thesis by (simp add: groupsOf_def)
next
  case False
  with assms(2) have "sl_ptr s < length h0" by (simp add: inRange_def)
  then have "h ! sl_ptr s = h0 ! sl_ptr s"
    using assms(1) by (metis nth_take)
  then show ?thesis by (simp add: groupsOf_def)
qed

lemma intsOf_prefix:
  assumes "take (length i0) i = i0" and "inRange i0 s"
  shows "intsOf i s = intsOf i0 s"
proof (cases "sl_len s = 0")
  case True
  then show ?thesis by (simp add: intsOf_def)
next
  case False
  with assms(2) have "sl_ptr s < length i0" by (simp add: inRange_def)
  then have "i ! sl_ptr s = i0 ! sl_ptr s"
    using assms(1) by (metis nth_take)
  then show ?thesis by (simp add: intsOf_def)
qed

lemma appendGroups_contents:
  assumes "appendGroups grow s elems m = (s', m')" and "valid (groupArrays m) s"
  shows "groupsOf (groupArrays m') s' = groupsOf (groupArrays m) s @ elems"
    and "valid (groupArrays m') s'"
proof -
  let ?h = "groupArrays m" and ?n = "sl_len s + length elems"
  have len: "length (groupsOf ?h s) = sl_len s"
    using assms(2) by (auto simp: valid_def groupsOf_def)
  show "groupsOf (groupArrays m') s' = groupsOf ?h s @ elems"
  proof (cases "?n \<le> sl_cap s")
    case False
    with assms(1) have "s' = \<lparr>sl_ptr = length ?h, sl_len = ?n,
          sl_cap = max ?n (grow (sl_cap s) ?n)\<rparr>"
      and "groupArrays m' = ?h @ [groupsOf ?h s @ elems @
          replicate (max ?n (grow (sl_cap s) ?n) - ?n) nilSlice]"
      by (auto simp: appendGroups_def Let_def)
    then show ?thesis
      using len by (simp add: groupsOf_def)
  next
    case True
    with assms(1) have s': "s' = s\<lparr>sl_len := ?n\<rparr>"
      and g: "groupArrays m' = ?h[sl_ptr s := take (sl_len s) (?h ! sl_ptr s) @ elems @
                     drop ?n (?h ! sl_ptr s)]"
      by (auto simp: appendGroups_def Let_def)
    show ?thesis
    proof (cases "sl_cap s = 0")
      case True
      with \<open>?n \<le> sl_cap s\<close> show ?thesis
        by (simp add: s' groupsOf_def)
    next
      case False
      with assms(2) have "sl_ptr s < length ?h" "length (?h ! sl_ptr s) = sl_cap s"
        "sl_len s \<le> sl_cap s"
        by (simp_all add: valid_def)
      then show ?thesis
        by (simp add: s' g groupsOf_def)
    qed
  qed
  show "valid (groupArrays m') s'"
  proof (cases "?n \<le> sl_cap s")
    case False
    with assms(1) have "s' = \<lparr>sl_ptr = length ?h, sl_len = ?n,
          sl_cap = max ?n (grow (sl_cap s) ?n)\<rparr>"
      and "groupArrays m' = ?h @ [groupsOf ?h s @ elems @
          replicate (max ?n (grow (sl_cap s) ?n) - ?n) nilSlice]"
      by (auto simp: appendGroups_def Let_def)
    then show ?thesis
      using len by (simp add: valid_def)
  next
    case True
    with assms(1) have s': "s' = s\<lparr>sl_len := ?n\<rparr>"
      and g: "groupArrays m' = ?h[sl_ptr s := take (sl_len s) (?h ! sl_ptr s) @ elems @
                     drop ?n (?h ! sl_ptr s)]"
      by (auto simp: appendGroups_def Let_def)
    show ?thesis
    proof (cases "sl_cap s = 0")
      case True
      with \<open>?n \<le> sl_cap s\<close> show ?thesis
        by (simp add: s' valid_def)
    next
      case False
      with assms(2) have "sl_ptr s < length ?h" "length (?h ! sl_ptr s) = sl_cap s"
        "sl_len s \<le> sl_cap s"
        by (simp_all add: valid_def)
      with True show ?thesis
        by (simp add: s' g valid_def)
    qed
  qed
qed

lemma collectProxySetsM_contents:
  assumes "collectProxySetsM grow rs s m = (s', m')"
    and "valid (groupArrays m) s"
    and "sl_cap s = 0 \<or> length h0 \<le> sl_ptr s"
    and "take (length h0) (groupArrays m) = h0"
    and "\<forall>r \<in> set rs. inRange h0 (NumGrp (snd r))"
  shows "groupsOf (groupArrays m') s' =
           groupsOf (groupArrays m) s @ concat (map (\<lambda>r. groupsOf h0 (NumGrp (snd r))) rs)"
  using assms
proof (induction rs arbitrary: s m)
  case Nil
  then show ?case by simp
next
  case (Cons r rs)
  obtain k1 v1 where r: "r = (k1, v1)" by (cases r)
  obtain s1 m1 where a: "appendGroups grow s (groupsOf (groupArrays m) (NumGrp v1)) m = (s1, m1)"
    by (cases "appendGroups grow s (groupsOf (groupArrays m) (NumGrp v1)) m")
  with Cons.prems(1) have c: "collectProxySetsM grow rs s1 m1 = (s', m')"
    by (simp add: r)
  have here: "groupsOf (groupArrays m) (NumGrp v1) = groupsOf h0 (NumGrp v1)"
    using Cons.prems(4,5) by (intro groupsOf_prefix) (simp_all add: r)
  have rest: "\<forall>r \<in> set rs. inRange h0 (NumGrp (snd r))"
    using Cons.prems(5) by simp
  from Cons.IH [OF c appendGroups_contents(2) [OF a Cons.prems(2)]
      appendGroups_frame(4) [OF a Cons.prems(3,4)]
      appendGroups_frame(3) [OF a Cons.prems(3,4)] rest]
    appendGroups_contents(1) [OF a Cons.prems(2)]
  show ?case
    by (simp add: r here)
qed

lemma containsGroup_contents:
  "containsGroup ints elems findme =
     containsNumGrp (map (intsOf ints) elems) (intsOf ints findme)"
  by (induction elems) auto

lemma newInts_reads:
  assumes "take (length i0) (intArrays m) = i0" and "\<forall>v \<in> set elems. inRange i0 v"
  shows "containsGroup (intArrays (snd (newInts xs m))) elems (fst (newInts xs m)) =
           containsNumGrp (map (intsOf i0) elems) xs"
proof -
  let ?i = "intArrays m @ [xs]"
  have le: "length i0 \<le> length (intArrays m)"
    using assms(1) by (rule prefix_length)
  then have pre: "take (length i0) ?i = i0"
    using assms(1) by simp
  have eq: "map (intsOf ?i) elems = map (intsOf i0) elems"
    using assms(2) by (intro map_cong refl intsOf_prefix [OF pre]) simp
  have f: "intsOf ?i (fst (newInts xs m)) = xs"
    by (simp add: newInts_def intsOf_def)
  have i: "intArrays (snd (newInts xs m)) = ?i"
    by (simp add: newInts_def)
  have "containsGroup ?i elems (fst (newInts xs m)) =
      containsNumGrp (map (intsOf ?i) elems) (intsOf ?i (fst (newInts xs m)))"
    by (rule containsGroup_contents)
  also have "\<dots> = containsNumGrp (map (intsOf i0) elems) xs"
    by (simp only: eq f)
  finally show ?thesis
    by (simp only: i)
qed

lemma pickProxyM_result:
  assumes "take (length i0) (intArrays m) = i0"
    and "\<forall>v \<in> set (groupsOf (groupArrays m) rps). inRange i0 v"
  shows "fst (pickProxyM pool rps c d m) =
           pickProxy pool (map (intsOf i0) (groupsOf (groupArrays m) rps)) c d"
  using assms
proof (induction pool arbitrary: m)
  case Nil
  then show ?case by simp
next
  case (Cons p rest)
  obtain k2 v2 where p: "p = (k2, v2)" by (cases p)
  let ?elems = "groupsOf (groupArrays m) rps"
  let ?m1 = "snd (newInts [c, Proxy_ID v2] m)" and ?f1 = "fst (newInts [c, Proxy_ID v2] m)"
  let ?m2 = "snd (newInts [d, Proxy_ID v2] ?m1)" and ?f2 = "fst (newInts [d, Proxy_ID v2] ?m1)"
  have le: "length i0 \<le> length (intArrays m)"
    using Cons.prems(1) by (rule prefix_length)
  have m1: "groupArrays ?m1 = groupArrays m" "take (length i0) (intArrays ?m1) = i0"
    using le Cons.prems(1) by (simp_all add: newInts_def)
  have m2: "groupArrays ?m2 = groupArrays m" "take (length i0) (intArrays ?m2) = i0"
    using le Cons.prems(1) by (simp_all add: newInts_def)
  have c1: "containsNumGrpM ?m1 rps ?f1 =
      containsNumGrp (map (intsOf i0) ?elems) [c, Proxy_ID v2]"
    unfolding containsNumGrpM_def m1(1)
    by (rule newInts_reads [OF Cons.prems])
  have c2: "containsNumGrpM ?m2 rps ?f2 =
      containsNumGrp (map (intsOf i0) ?elems) [d, Proxy_ID v2]"
    unfolding containsNumGrpM_def m2(1)
    using newInts_reads [OF m1(2), of ?elems "[d, Proxy_ID v2]"] Cons.prems(2) by simp
  have ih1: "fst (pickProxyM rest rps c d ?m1) = pickProxy rest (map (intsOf i0) ?elems) c d"
    using Cons.IH [OF m1(2)] Cons.prems(2) by (simp add: m1(1))
  have ih2: "fst (pickProxyM rest rps c d ?m2) = pickProxy rest (map (intsOf i0) ?elems) c d"
    using Cons.IH [OF m2(2)] Cons.prems(2) by (simp add: m2(1))
  show ?case
    by (simp add: p split_beta c1 c2 ih1 ih2)
qed

lemma allocate_by_contents:
  assumes "wellFormed m"
  shows "fst (getAvailableProxyNumberM grow m customerID driverID) =
         fst (getAvailableProxyNumber (snapshot m) customerID driverID)"
proof (cases "Rides (database m) = []")
  case True
  then show ?thesis
    by (simp add: getAvailableProxyNumberM_def getAvailableProxyNumber_def snapshot_def
        split: list.split prod.split)
next
  case False
  let ?h0 = "groupArrays m" and ?i0 = "intArrays m"
  obtain rps m1 where c: "collectProxySetsM grow (Rides (database m)) nilSlice m = (rps, m1)"
    by (cases "collectProxySetsM grow (Rides (database m)) nilSlice m")
  have fr: "database m1 = database m \<and> intArrays m1 = intArrays m \<and>
         take (length ?h0) (groupArrays m1) = ?h0"
    by (rule collectProxySetsM_frame [OF c]) (simp_all add: nilSlice_def)
  have inr: "\<forall>r \<in> set (Rides (database m)). inRange ?h0 (NumGrp (snd r))"
    using assms by (simp add: wellFormed_def)
  have elems: "groupsOf (groupArrays m1) rps =
      concat (map (\<lambda>r. groupsOf ?h0 (NumGrp (snd r))) (Rides (database m)))"
    using collectProxySetsM_contents [OF c _ _ _ inr]
    by (simp add: valid_def nilSlice_def groupsOf_def)
  have inner: "\<forall>v \<in> set (groupsOf (groupArrays m1) rps). inRange ?i0 v"
    unfolding elems using assms by (auto simp: wellFormed_def)
  have "fst (getAvailableProxyNumberM grow m customerID driverID) =
      fst (pickProxyM (ProxyNumbers (database m)) rps customerID driverID m1)"
    using False c fr by (simp add: getAvailableProxyNumberM_def)
  also have "\<dots> = pickProxy (ProxyNumbers (database m))
      (map (intsOf ?i0) (groupsOf (groupArrays m1) rps)) customerID driverID"
    using inner fr by (intro pickProxyM_result) simp_all
  also have "map (intsOf ?i0) (groupsOf (groupArrays m1) rps) =
      collectProxySets (Rides (snapshot m)) []"
    by (simp add: elems collectProxySets_concat snapshot_def rideContents_def contents_def
        map_concat comp_def split_beta)
  also have "pickProxy (ProxyNumbers (database m)) (collectProxySets (Rides (snapshot m)) [])
        customerID driverID =
      fst (getAvailableProxyNumber (snapshot m) customerID driverID)"
    using False by (simp add: getAvailableProxyNumber_def snapshot_def Let_def)
  finally show ?thesis .
qed

lemma allocate_leaves_snapshot:
  assumes "wellFormed m"
  shows "snapshot (snd (getAvailableProxyNumberM grow m customerID driverID)) = snapshot m"
proof -
  let ?m' = "snd (getAvailableProxyNumberM grow m customerID driverID)"
  from allocate_leaves_memory [of grow m customerID driverID]
  have db: "database ?m' = database m"
    and g: "take (length (groupArrays m)) (groupArrays ?m') = groupArrays m"
    and i: "take (length (intArrays m)) (intArrays ?m') = intArrays m"
    by simp_all
  have "rideContents ?m' (snd r) = rideContents m (snd r)" if "r \<in> set (Rides (database m))" for r
  proof -
    from assms that have 1: "inRange (groupArrays m) (NumGrp (snd r))"
      and 2: "\<forall>v \<in> set (groupsOf (groupArrays m) (NumGrp (snd r))). inRange (intArrays m) v"
      by (auto simp: wellFormed_def)
    have e: "groupsOf (groupArrays ?m') (NumGrp (snd r)) = groupsOf (groupArrays m) (NumGrp (snd r))"
      using g 1 by (rule groupsOf_prefix)
    have "map (intsOf (intArrays ?m')) (groupsOf (groupArrays m) (NumGrp (snd r))) =
          map (intsOf (intArrays m)) (groupsOf (groupArrays m) (NumGrp (snd r)))"
      using 2 by (intro map_cong refl intsOf_prefix [OF i]) simp
    then show ?thesis
      by (simp add: rideContents_def contents_def e)
  qed
  then have "map (\<lambda>(k, r). (k, rideContents ?m' r)) (Rides (database m)) =
             map (\<lambda>(k, r). (k, rideContents m r)) (Rides (database m))"
    by (intro map_cong refl) (auto simp: split_beta)
  then show ?thesis
    by (simp add: snapshot_def db)
qed

text \<open>
  A run in which the second \<open>append\<close> writes in place, into the array the first one
  allocated.
\<close>

lemma exampleMemory_run:
  "fst (getAvailableProxyNumberM doubling exampleMemory 2 3) =
     Inr \<lparr>Proxy_ID = 2, Proxy_Number = ''319700005''\<rparr> \<and>
   groupArrays (snd (getAvailableProxyNumberM doubling exampleMemory 2 3)) =
     groupArrays exampleMemory @
       [[\<lparr>sl_ptr = 0, sl_len = 2, sl_cap = 2\<rparr>, \<lparr>sl_ptr = 1, sl_len = 2, sl_cap = 2\<rparr>,
         \<lparr>sl_ptr = 2, sl_len = 2, sl_cap = 2\<rparr>, \<lparr>sl_ptr = 3, sl_len = 2, sl_cap = 2\<rparr>]] \<and>
   intArrays (snd (getAvailableProxyNumberM doubling exampleMemory 2 3)) =
     intArrays exampleMemory @ [[2, 1], [2, 2], [3, 2]] \<and>
   wellFormed exampleMemory"
  by (simp add: getAvailableProxyNumberM_def exampleMemory_def rideM_def doubling_def
      appendGroups_def newInts_def containsNumGrpM_def groupsOf_def intsOf_def nilSlice_def
      wellFormed_def inRange_def Let_def)

lemma allocate_returns_database:
  "snd (getAvailableProxyNumber db customerID driverID) = db"
  by (simp add: getAvailableProxyNumber_def Let_def split: list.split prod.split)

section \<open>Properties of the handlers\<close>

lemmas handler_defs =
  messageHookHandler_def voiceHookHandler_def checkIfCustomer_def checkIfDriver_def
  mbSender_def transferFailed_def noEffects_def fprint_def logLine_def parties_def
  ridesReversed_def

subsection \<open>The first ride on the proxy number\<close>

text \<open>
  The message handler answers by the first ride it visits on the proxy number: a sender
  who is the number of some customer reaches the driver of that ride, a sender who is
  the number of some driver and of no customer reaches its customer.
\<close>

lemma messageRides_first_customer:
  "\<forall>r \<in> set before. Proxy_Number (ThisProxyNumber (snd r)) \<noteq> receiver \<Longrightarrow>
   Proxy_Number (ThisProxyNumber v) = receiver \<Longrightarrow> checkIfCustomer db originator \<Longrightarrow>
     sent (messageRides db (before @ (k, v) # after) originator receiver payload w) =
       sent w @ [(receiver, [Person_Number (ThisDriver v)], payload)]"
proof (induction before arbitrary: w)
  case Nil
  then show ?case by (simp add: mbSender_def)
next
  case (Cons r before)
  obtain k' v' where r: "r = (k', v')" by (cases r)
  from Cons.prems(1) have "Proxy_Number (ThisProxyNumber v') \<noteq> receiver"
    and rest: "\<forall>r \<in> set before. Proxy_Number (ThisProxyNumber (snd r)) \<noteq> receiver"
    by (simp_all add: r)
  then show ?case
    by (simp add: r Cons.IH [OF rest Cons.prems(2,3)] logLine_def)
qed

lemma messageRides_first_driver:
  "\<forall>r \<in> set before. Proxy_Number (ThisProxyNumber (snd r)) \<noteq> receiver \<Longrightarrow>
   Proxy_Number (ThisProxyNumber v) = receiver \<Longrightarrow>
   \<not> checkIfCustomer db originator \<Longrightarrow> checkIfDriver db originator \<Longrightarrow>
     sent (messageRides db (before @ (k, v) # after) originator receiver payload w) =
       sent w @ [(receiver, [Person_Number (ThisCustomer v)], payload)]"
proof (induction before arbitrary: w)
  case Nil
  then show ?case by (simp add: mbSender_def)
next
  case (Cons r before)
  obtain k' v' where r: "r = (k', v')" by (cases r)
  from Cons.prems(1) have "Proxy_Number (ThisProxyNumber v') \<noteq> receiver"
    and rest: "\<forall>r \<in> set before. Proxy_Number (ThisProxyNumber (snd r)) \<noteq> receiver"
    by (simp_all add: r)
  then show ?case
    by (simp add: r Cons.IH [OF rest Cons.prems(2,3,4)] logLine_def)
qed

subsection \<open>A proxy number shared by two rides\<close>

text \<open>
  Claim C1. The history \<open>sharedTables\<close> holds the ride of Caitlyn (319700000) with David
  (319700002) and the ride of Danny (319700001) with Eileen (319700003), both on the
  proxy number 319700004. When the rides are visited in the order of their keys, a
  message from Danny to the proxy number is sent on to David, not to Eileen; when they
  are visited in the opposite order, a message from Caitlyn is sent on to Eileen, not to
  David. The handler takes the first ride on the proxy number and asks only whether the
  sender is some customer.
\<close>

theorem message_shared_proxy:
  "parties (loadDB sharedTables) =
     [(''319700000'', ''319700002'', ''319700004''), (''319700001'', ''319700003'', ''319700004'')] \<and>
   sent (messageHookHandler (Inr (loadDB sharedTables))
           ''POST'' ''319700001'' ''319700004'' ''hello'') =
     [(''319700004'', [''319700002''], ''hello'')] \<and>
   sent (messageHookHandler (Inr (ridesReversed (loadDB sharedTables)))
           ''POST'' ''319700000'' ''319700004'' ''hello'') =
     [(''319700004'', [''319700003''], ''hello'')]"
  by (simp add: example_defs handler_defs)

subsection \<open>A sender who is no party of the ride\<close>

text \<open>
  Claim C2. The history \<open>oneRideTables\<close> holds one ride, of Caitlyn with David on the
  proxy number 319700004. Danny (319700001) is a customer and Eileen (319700003) a
  driver, and neither has a ride. A message from Danny to the proxy number is sent on to
  David and a message from Eileen to Caitlyn, with nothing logged; a call from Danny is
  transferred to David.
\<close>

theorem message_from_other_customer:
  "parties (loadDB oneRideTables) = [(''319700000'', ''319700002'', ''319700004'')] \<and>
   messageHookHandler (Inr (loadDB oneRideTables)) ''POST'' ''319700001'' ''319700004'' ''hello'' =
     \<lparr>sent = [(''319700004'', [''319700002''], ''hello'')], logs = [], status = 200,
      written = []\<rparr> \<and>
   messageHookHandler (Inr (loadDB oneRideTables)) ''POST'' ''319700003'' ''319700004'' ''hello'' =
     \<lparr>sent = [(''319700004'', [''319700000''], ''hello'')], logs = [], status = 200,
      written = []\<rparr> \<and>
   written (voiceHookHandler (Inr (loadDB oneRideTables)) ''319700004'' ''319700001'') =
     transferXML ''319700002''"
  by (simp add: example_defs handler_defs)

subsection \<open>Rides on other proxy numbers\<close>

text \<open>
  The voice handler gives up at the first ride whose proxy number is not the one
  called, so a history with such a ride gets the failure call flow in every order.
\<close>

lemma voiceRides_other_proxy:
  "\<exists>r \<in> set rs. Proxy_Number (ThisProxyNumber (snd r)) \<noteq> proxyNumber \<Longrightarrow>
     \<exists>f. voiceRides db rs proxyNumber caller fwd w = transferFailed f w"
proof (induction rs arbitrary: fwd)
  case Nil
  then show ?case by simp
next
  case (Cons r rs)
  obtain k v where r: "r = (k, v)" by (cases r)
  show ?case
  proof (cases "Proxy_Number (ThisProxyNumber v) = proxyNumber")
    case True
    with Cons.prems have "\<exists>r \<in> set rs. Proxy_Number (ThisProxyNumber (snd r)) \<noteq> proxyNumber"
      by (simp add: r)
    from Cons.IH [OF this] True show ?thesis
      by (auto simp: r)
  next
    case False
    then show ?thesis
      by (auto simp: r)
  qed
qed

text \<open>
  Claim C3. In \<open>threeRideTables\<close> the rides of Caitlyn with David and of Danny with
  Eileen share the proxy number 319700004, and Caitlyn has a ride with Eileen on
  319700005. A call from Danny to 319700004 gets the failure call flow, in the order of
  the keys and in the opposite order, because a ride on the other proxy number is
  visited; a message from Danny to 319700004 is sent on to David, the driver of the
  first ride on that number. In \<open>sharedTables\<close>, where every ride is on 319700004, a
  call from Caitlyn is transferred to Eileen, the driver of the last ride visited.
\<close>

theorem voice_shared_proxy:
  "parties (loadDB threeRideTables) =
     [(''319700000'', ''319700002'', ''319700004''), (''319700000'', ''319700003'', ''319700005''),
      (''319700001'', ''319700003'', ''319700004'')] \<and>
   written (voiceHookHandler (Inr (loadDB threeRideTables)) ''319700004'' ''319700001'') =
     transactionFailXML \<and>
   written (voiceHookHandler (Inr (ridesReversed (loadDB threeRideTables)))
              ''319700004'' ''319700001'') =
     transactionFailXML \<and>
   sent (messageHookHandler (Inr (loadDB threeRideTables))
           ''POST'' ''319700001'' ''319700004'' ''hello'') =
     [(''319700004'', [''319700002''], ''hello'')] \<and>
   written (voiceHookHandler (Inr (loadDB sharedTables)) ''319700004'' ''319700000'') =
     transferXML ''319700003''"
  by (simp add: example_defs handler_defs)

subsection \<open>A proxy number of no ride, a sender of no table\<close>

lemma line_differs: "unknownProxyLine receiver \<noteq> noRideLine originator receiver'"
  by (simp add: unknownProxyLine_def noRideLine_def)

lemma messageRides_unknown:
  "\<forall>r \<in> set rs. Proxy_Number (ThisProxyNumber (snd r)) \<noteq> receiver \<Longrightarrow>
     messageRides db rs originator receiver payload w =
       fprint ''OK'' (w\<lparr>logs := logs w @ replicate (length rs) (unknownProxyLine receiver)\<rparr>)"
proof (induction rs arbitrary: w)
  case Nil
  then show ?case by simp
next
  case (Cons r rs)
  obtain k v where r: "r = (k, v)" by (cases r)
  from Cons.prems have "Proxy_Number (ThisProxyNumber v) \<noteq> receiver"
    and rest: "\<forall>r \<in> set rs. Proxy_Number (ThisProxyNumber (snd r)) \<noteq> receiver"
    by (simp_all add: r)
  then show ?case
    by (simp add: r Cons.IH [OF rest] logLine_def replicate_append_same)
qed

lemma voiceRides_unknown:
  "rs \<noteq> [] \<Longrightarrow> \<forall>r \<in> set rs. Proxy_Number (ThisProxyNumber (snd r)) \<noteq> proxyNumber \<Longrightarrow>
     voiceRides db rs proxyNumber caller fwd w = transferFailed fwd w"
  by (cases rs) auto

text \<open>
  A sender who is the number of no customer and of no driver: the message handler logs
  a line for every ride, the line of the missing ride when the ride is on the proxy
  number, and sends nothing; the voice handler fails at the first ride.
\<close>

lemma messageRides_stranger:
  "\<not> checkIfCustomer db originator \<Longrightarrow> \<not> checkIfDriver db originator \<Longrightarrow>
     messageRides db rs originator receiver payload w =
       fprint ''OK''
         (w\<lparr>logs := logs w @
            map (\<lambda>r. if Proxy_Number (ThisProxyNumber (snd r)) = receiver
                      then noRideLine originator receiver
                      else unknownProxyLine receiver) rs\<rparr>)"
proof (induction rs arbitrary: w)
  case Nil
  then show ?case by simp
next
  case (Cons r rs)
  obtain k v where r: "r = (k, v)" by (cases r)
  show ?case
    by (simp add: r Cons.IH [OF Cons.prems] Cons.prems logLine_def)
qed

lemma voiceRides_stranger:
  "rs \<noteq> [] \<Longrightarrow> \<not> checkIfCustomer db caller \<Longrightarrow> \<not> checkIfDriver db caller \<Longrightarrow>
     voiceRides db rs proxyNumber caller fwd w = transferFailed fwd w"
  by (cases rs) auto

lemma voice_failure_text:
  "transferFailed [] noEffects =
     \<lparr>sent = [], logs = [''Transfer to  failed.''], status = 200,
               written = ''<?xml version='1.0' encoding='UTF-8'?><Say language='en-GB' voice='female'>Sorry, we cannot identify your transaction. Please make sure you have call in from the number you registered.</Say><Hangup />''\<rparr>"
  by (simp add: transferFailed_def noEffects_def fprint_def logLine_def transactionFailXML_def
      xmlHeader_def)

text \<open>
  Claim C4, as the code has it. An event on a proxy number of no ride: the message
  handler sends nothing, answers \<open>OK\<close> and logs "Unknown proxy number" once for every
  ride, never the line of a missing ride; the voice handler, when the history is not
  empty, transfers nothing and answers with the failure call flow, logging
  "Transfer to  failed.". An event from a sender who is the number of no customer and of
  no driver: the message handler sends nothing, answers \<open>OK\<close> and logs "Could not find
  ride" for every ride on the proxy number of the event and "Unknown proxy number" for
  every other ride, so that on a proxy number of some ride its log differs from the log
  of the first kind of event; the voice handler, when the history is not empty, gives
  the very answer and log line it gives for the first kind.
\<close>

theorem unknown_proxy:
  "((\<forall>r \<in> set (Rides db). Proxy_Number (ThisProxyNumber (snd r)) \<noteq> receiver) \<longrightarrow>
      messageHookHandler (Inr db) ''POST'' originator receiver payload =
        \<lparr>sent = [],
         logs = replicate (length (Rides db)) (''Unknown proxy number: '' @ receiver),
         status = 200, written = ''OK''\<rparr> \<and>
      (''Could not find ride for customer/driver '' @ other @ '' that uses proxy '' @ number)
        \<notin> set (logs (messageHookHandler (Inr db) ''POST'' originator receiver payload)) \<and>
      (Rides db \<noteq> [] \<longrightarrow>
         voiceHookHandler (Inr db) receiver caller =
           \<lparr>sent = [], logs = [''Transfer to  failed.''], status = 200,
               written = ''<?xml version='1.0' encoding='UTF-8'?><Say language='en-GB' voice='female'>Sorry, we cannot identify your transaction. Please make sure you have call in from the number you registered.</Say><Hangup />''\<rparr>)) \<and>
   (\<not> checkIfCustomer db stranger \<and> \<not> checkIfDriver db stranger \<longrightarrow>
      messageHookHandler (Inr db) ''POST'' stranger bound payload' =
        \<lparr>sent = [],
         logs = map (\<lambda>r. if Proxy_Number (ThisProxyNumber (snd r)) = bound
                          then ''Could not find ride for customer/driver '' @ stranger @
                               '' that uses proxy '' @ bound
                          else ''Unknown proxy number: '' @ bound) (Rides db),
         status = 200, written = ''OK''\<rparr> \<and>
      (Rides db \<noteq> [] \<longrightarrow>
         voiceHookHandler (Inr db) bound stranger =
           \<lparr>sent = [], logs = [''Transfer to  failed.''], status = 200,
               written = ''<?xml version='1.0' encoding='UTF-8'?><Say language='en-GB' voice='female'>Sorry, we cannot identify your transaction. Please make sure you have call in from the number you registered.</Say><Hangup />''\<rparr>) \<and>
      ((\<exists>r \<in> set (Rides db). Proxy_Number (ThisProxyNumber (snd r)) = bound) \<and>
       (\<forall>r \<in> set (Rides db). Proxy_Number (ThisProxyNumber (snd r)) \<noteq> receiver) \<longrightarrow>
         logs (messageHookHandler (Inr db) ''POST'' stranger bound payload') \<noteq>
         logs (messageHookHandler (Inr db) ''POST'' originator receiver payload)))"
proof (intro conjI impI)
  assume u: "\<forall>r \<in> set (Rides db). Proxy_Number (ThisProxyNumber (snd r)) \<noteq> receiver"
  show m: "messageHookHandler (Inr db) ''POST'' originator receiver payload =
        \<lparr>sent = [],
         logs = replicate (length (Rides db)) (''Unknown proxy number: '' @ receiver),
         status = 200, written = ''OK''\<rparr>"
    by (simp add: messageHookHandler_def messageRides_unknown [OF u] noEffects_def fprint_def
        unknownProxyLine_def)
  show "(''Could not find ride for customer/driver '' @ other @ '' that uses proxy '' @ number)
        \<notin> set (logs (messageHookHandler (Inr db) ''POST'' originator receiver payload))"
    unfolding m by auto
  show "voiceHookHandler (Inr db) receiver caller =
           \<lparr>sent = [], logs = [''Transfer to  failed.''], status = 200,
               written = ''<?xml version='1.0' encoding='UTF-8'?><Say language='en-GB' voice='female'>Sorry, we cannot identify your transaction. Please make sure you have call in from the number you registered.</Say><Hangup />''\<rparr>"
    if "Rides db \<noteq> []"
    using that
    by (simp add: voiceHookHandler_def voiceRides_unknown [OF _ u] voice_failure_text)
next
  assume s: "\<not> checkIfCustomer db stranger \<and> \<not> checkIfDriver db stranger"
  then have s1: "\<not> checkIfCustomer db stranger" and s2: "\<not> checkIfDriver db stranger"
    by simp_all
  show m: "messageHookHandler (Inr db) ''POST'' stranger bound payload' =
        \<lparr>sent = [],
         logs = map (\<lambda>r. if Proxy_Number (ThisProxyNumber (snd r)) = bound
                          then ''Could not find ride for customer/driver '' @ stranger @
                               '' that uses proxy '' @ bound
                          else ''Unknown proxy number: '' @ bound) (Rides db),
         status = 200, written = ''OK''\<rparr>"
    by (simp add: messageHookHandler_def messageRides_stranger [OF s1 s2] noEffects_def
        fprint_def unknownProxyLine_def noRideLine_def)
  show "voiceHookHandler (Inr db) bound stranger =
           \<lparr>sent = [], logs = [''Transfer to  failed.''], status = 200,
               written = ''<?xml version='1.0' encoding='UTF-8'?><Say language='en-GB' voice='female'>Sorry, we cannot identify your transaction. Please make sure you have call in from the number you registered.</Say><Hangup />''\<rparr>"
    if "Rides db \<noteq> []"
    using that
    by (simp add: voiceHookHandler_def voiceRides_stranger [OF _ s1 s2] voice_failure_text)
  show "logs (messageHookHandler (Inr db) ''POST'' stranger bound payload') \<noteq>
         logs (messageHookHandler (Inr db) ''POST'' originator receiver payload)"
    if b: "(\<exists>r \<in> set (Rides db). Proxy_Number (ThisProxyNumber (snd r)) = bound) \<and>
       (\<forall>r \<in> set (Rides db). Proxy_Number (ThisProxyNumber (snd r)) \<noteq> receiver)"
  proof -
    let ?line = "''Could not find ride for customer/driver '' @ stranger @
                 '' that uses proxy '' @ bound"
    from b have u: "\<forall>r \<in> set (Rides db). Proxy_Number (ThisProxyNumber (snd r)) \<noteq> receiver"
      by simp
    have "?line \<in> set (logs (messageHookHandler (Inr db) ''POST'' stranger bound payload'))"
      unfolding m using b by auto
    moreover have
      "?line \<notin> set (logs (messageHookHandler (Inr db) ''POST'' originator receiver payload))"
      by (auto simp: messageHookHandler_def messageRides_unknown [OF u] noEffects_def
          fprint_def unknownProxyLine_def)
    ultimately show ?thesis
      by metis
  qed
qed

theorem unknown_proxy_witness:
  "''319700005'' \<notin>
     (\<lambda>r. Proxy_Number (ThisProxyNumber (snd r))) ` set (Rides (loadDB sharedTables)) \<and>
   ''319700004'' \<in>
     (\<lambda>r. Proxy_Number (ThisProxyNumber (snd r))) ` set (Rides (loadDB sharedTables)) \<and>
   \<not> checkIfCustomer (loadDB sharedTables) ''319700009'' \<and>
   \<not> checkIfDriver (loadDB sharedTables) ''319700009'' \<and>
   Rides (loadDB sharedTables) \<noteq> [] \<and>
   messageHookHandler (Inr (loadDB sharedTables)) ''POST'' ''319700000'' ''319700005'' ''hello'' =
     \<lparr>sent = [],
      logs = [''Unknown proxy number: 319700005'', ''Unknown proxy number: 319700005''],
      status = 200, written = ''OK''\<rparr> \<and>
   messageHookHandler (Inr (loadDB sharedTables)) ''POST'' ''319700009'' ''319700004'' ''hello'' =
     \<lparr>sent = [],
      logs = [''Could not find ride for customer/driver 319700009 that uses proxy 319700004'',
              ''Could not find ride for customer/driver 319700009 that uses proxy 319700004''],
      status = 200, written = ''OK''\<rparr> \<and>
   voiceHookHandler (Inr (loadDB sharedTables)) ''319700005'' ''319700000'' =
     \<lparr>sent = [], logs = [''Transfer to  failed.''], status = 200,
               written = ''<?xml version='1.0' encoding='UTF-8'?><Say language='en-GB' voice='female'>Sorry, we cannot identify your transaction. Please make sure you have call in from the number you registered.</Say><Hangup />''\<rparr> \<and>
   voiceHookHandler (Inr (loadDB sharedTables)) ''319700004'' ''319700009'' =
     \<lparr>sent = [], logs = [''Transfer to  failed.''], status = 200,
               written = ''<?xml version='1.0' encoding='UTF-8'?><Say language='en-GB' voice='female'>Sorry, we cannot identify your transaction. Please make sure you have call in from the number you registered.</Say><Hangup />''\<rparr> \<and>
   logs (messageHookHandler (Inr (loadDB sharedTables))
           ''POST'' ''319700009'' ''319700004'' ''hello'') \<noteq>
   logs (messageHookHandler (Inr (loadDB sharedTables))
           ''POST'' ''319700000'' ''319700005'' ''hello'')"
proof -
  let ?db = "loadDB sharedTables"
  have u: "\<forall>r \<in> set (Rides ?db). Proxy_Number (ThisProxyNumber (snd r)) \<noteq> ''319700005''"
    by (simp add: example_defs)
  have b: "\<exists>r \<in> set (Rides ?db). Proxy_Number (ThisProxyNumber (snd r)) = ''319700004''"
    by (simp add: example_defs)
  have s: "\<not> checkIfCustomer ?db ''319700009''" "\<not> checkIfDriver ?db ''319700009''"
    by (simp_all add: example_defs checkIfCustomer_def checkIfDriver_def)
  have n: "Rides ?db \<noteq> []"
    by (simp add: example_defs)
  have l: "replicate (length (Rides ?db)) (''Unknown proxy number: '' @ ''319700005'') =
      [''Unknown proxy number: 319700005'', ''Unknown proxy number: 319700005'']"
    by (simp add: example_defs)
  have m: "map (\<lambda>r. if Proxy_Number (ThisProxyNumber (snd r)) = ''319700004''
                      then ''Could not find ride for customer/driver '' @ ''319700009'' @
                           '' that uses proxy '' @ ''319700004''
                      else ''Unknown proxy number: '' @ ''319700004'') (Rides ?db) =
      [''Could not find ride for customer/driver 319700009 that uses proxy 319700004'',
       ''Could not find ride for customer/driver 319700009 that uses proxy 319700004'']"
    by (simp add: example_defs)
  have u': "''319700005'' \<notin> (\<lambda>r. Proxy_Number (ThisProxyNumber (snd r))) ` set (Rides ?db)"
    using u by auto
  have b': "''319700004'' \<in> (\<lambda>r. Proxy_Number (ThisProxyNumber (snd r))) ` set (Rides ?db)"
    using b by force
  from unknown_proxy [of ?db "''319700005''" "''319700000''" "''hello''" _ _ "''319700000''"
      "''319700009''" "''319700004''" "''hello''"] u b s n
  have "messageHookHandler (Inr ?db) ''POST'' ''319700000'' ''319700005'' ''hello'' =
          \<lparr>sent = [],
           logs = replicate (length (Rides ?db)) (''Unknown proxy number: '' @ ''319700005''),
           status = 200, written = ''OK''\<rparr>"
    and "messageHookHandler (Inr ?db) ''POST'' ''319700009'' ''319700004'' ''hello'' =
          \<lparr>sent = [],
           logs = map (\<lambda>r. if Proxy_Number (ThisProxyNumber (snd r)) = ''319700004''
                      then ''Could not find ride for customer/driver '' @ ''319700009'' @
                           '' that uses proxy '' @ ''319700004''
                      else ''Unknown proxy number: '' @ ''319700004'') (Rides ?db),
           status = 200, written = ''OK''\<rparr>"
    and "voiceHookHandler (Inr ?db) ''319700005'' ''319700000'' =
          \<lparr>sent = [], logs = [''Transfer to  failed.''], status = 200,
               written = ''<?xml version='1.0' encoding='UTF-8'?><Say language='en-GB' voice='female'>Sorry, we cannot identify your transaction. Please make sure you have call in from the number you registered.</Say><Hangup />''\<rparr>"
    and "voiceHookHandler (Inr ?db) ''319700004'' ''319700009'' =
          \<lparr>sent = [], logs = [''Transfer to  failed.''], status = 200,
               written = ''<?xml version='1.0' encoding='UTF-8'?><Say language='en-GB' voice='female'>Sorry, we cannot identify your transaction. Please make sure you have call in from the number you registered.</Say><Hangup />''\<rparr>"
    and "logs (messageHookHandler (Inr ?db) ''POST'' ''319700009'' ''319700004'' ''hello'') \<noteq>
         logs (messageHookHandler (Inr ?db) ''POST'' ''319700000'' ''319700005'' ''hello'')"
    by blast+
  then show ?thesis
    unfolding l m using u' b' s n by blast
qed

text \<open>
  Claim C4, as stated, fails in the voice handler. On \<open>oneRideTables\<close> a call to a
  number of no ride and a call from a number of no party to the number of the ride
  have the same outcome, response and log line alike, so the two failures are not told
  apart. And on the empty history of \<open>exampleTables\<close> a call gets a \<open>Transfer\<close> call
  flow, not a failure.
\<close>

theorem voice_failures_alike:
  "voiceHookHandler (Inr (loadDB oneRideTables)) ''319700005'' ''319700000'' =
     voiceHookHandler (Inr (loadDB oneRideTables)) ''319700004'' ''319700009'' \<and>
   written (voiceHookHandler (Inr (loadDB oneRideTables)) ''319700005'' ''319700000'') =
     transactionFailXML \<and>
   written (voiceHookHandler (Inr (loadDB exampleTables)) ''319700004'' ''319700000'') =
     transferXML []"
  by (simp add: example_defs handler_defs)

subsection \<open>An empty history\<close>

text \<open>
  Claim C10. When the ride history is empty the loop of \<open>voiceHookHandler\<close> has nothing
  to visit: the handler logs the transfer and writes the \<open>Transfer\<close> call flow with
  the empty string as its destination, and what it writes is not the \<open>Say\<close> and
  \<open>Hangup\<close> failure call flow, the text of \<open>transactionFailXML\<close>, which only an
  iteration of the loop writes.
\<close>

theorem voice_empty_history:
  "Rides db = [] \<Longrightarrow>
     voiceHookHandler (Inr db) proxyNumber caller =
       \<lparr>sent = [], logs = [''Transferring call to  ''], status = 200,
        written = ''<?xml version='1.0' encoding='UTF-8'?><Transfer destination='' @
                  [CHR 0x27, CHR 0x27] @ '' make='true' />''\<rparr> \<and>
     written (voiceHookHandler (Inr db) proxyNumber caller) \<noteq> transactionFailXML \<and>
     transactionFailXML =
       ''<?xml version='1.0' encoding='UTF-8'?><Say language='en-GB' voice='female'>Sorry, we cannot identify your transaction. Please make sure you have call in from the number you registered.</Say><Hangup />''"
  by (simp add: voiceHookHandler_def noEffects_def fprint_def logLine_def transferXML_def
      transactionFailXML_def xmlHeader_def apos_def)

theorem voice_empty_history_witness:
  "Rides (loadDB exampleTables) = [] \<and>
   voiceHookHandler (Inr (loadDB exampleTables)) ''319700004'' ''319700000'' =
     \<lparr>sent = [], logs = [''Transferring call to  ''], status = 200,
      written = ''<?xml version='1.0' encoding='UTF-8'?><Transfer destination='' @
                [CHR 0x27, CHR 0x27] @ '' make='true' />''\<rparr> \<and>
   written (voiceHookHandler (Inr (loadDB exampleTables)) ''319700004'' ''319700000'')
     \<noteq> transactionFailXML"
proof -
  have r: "Rides (loadDB exampleTables) = []"
    by (simp add: loadDB_def exampleTables_def)
  show ?thesis
    using r voice_empty_history [OF r, of "''319700004''" "''319700000''"] by blast
qed

end
